theory Spec2Isabelle
  imports Main
begin

section \<open>Chained extended attributes (os/filestore/chain\_xattr.cc)\<close>

text \<open>
  A logical attribute that is too large for one extended attribute of the file system is
  stored as a chain of physical attributes.  The key of chunk 0 is the logical name with
  every \<open>@\<close> doubled; the key of chunk \<open>i > 0\<close> is that key followed by \<open>@i\<close>.

  Conventions of the embedding.
  \<^item> A C string is a \<open>string\<close> without its terminator; \<open>NUL\<close> is the terminator byte.
    A pointer into memory that the code scans for a terminator is the list of the bytes
    from the pointer onwards, terminators included.
  \<^item> A C \<open>int\<close> has 32 bits.  The results of the additions and multiplications that the
    code does in \<open>int\<close> (the chunk counter, the sums of chunk lengths, the doubled size of
    the key list, the count of listed bytes) are written with the wrap-around of two's
    complement, \<open>wrap_int\<close>.  \<open>size_t\<close> is a natural number below \<open>2 ^ 64\<close>, its
    subtraction and doubling written with the wrap-around.
  \<^item> \<open>ceph_assert\<close> aborts the process: the fault \<open>AssertFailed\<close>.
\<close>

subsection \<open>Constants\<close>

text \<open>
  The block sizes and the maximal name length come from \<open>chain_xattr.h\<close>, which is not
  part of the sources at hand: they are the fields of a parameter.
\<close>

record chain_consts =
  CHAIN_XATTR_MAX_NAME_LEN :: int
  CHAIN_XATTR_MAX_BLOCK_LEN :: int
  CHAIN_XATTR_SHORT_BLOCK_LEN :: int
  CHAIN_XATTR_SHORT_LEN_THRESHOLD :: int

text \<open>\<open>sizeof(raw_name)\<close> and \<open>sizeof(name)\<close> of the buffers on the stack.\<close>

definition name_buf_len :: "chain_consts \<Rightarrow> int" where
  "name_buf_len K = CHAIN_XATTR_MAX_NAME_LEN K * 2 + 16"

text \<open>The value that a computation in \<open>int\<close> leaves in its 32 bits.\<close>

definition wrap_int :: "int \<Rightarrow> int" where
  "wrap_int x = (x + 2 ^ 31) mod 2 ^ 32 - 2 ^ 31"

text \<open>The values of \<open>errno.h\<close> on Linux.\<close>

definition ENOMEM :: int where "ENOMEM = 12"
definition ERANGE :: int where "ERANGE = 34"
definition ENODATA :: int where "ENODATA = 61"

abbreviation NUL :: char where "NUL \<equiv> CHR 0x00"

definition c_string :: "string \<Rightarrow> bool" where
  "c_string s \<longleftrightarrow> NUL \<notin> set s"

datatype fault = AssertFailed | ReadPastEnd | IndeterminateRead | BufferOverrun

subsection \<open>Name codec\<close>

text \<open>The conversion \<open>%d\<close> of \<open>snprintf\<close>.\<close>

fun show_nat :: "nat \<Rightarrow> string" where
  "show_nat n =
     (if n < 10 then [''0123456789'' ! n]
      else show_nat (n div 10) @ [''0123456789'' ! (n mod 10)])"

declare show_nat.simps [simp del]

definition show_int :: "int \<Rightarrow> string" where
  "show_int i = (if i < 0 then CHR ''-'' # show_nat (nat (- i)) else show_nat (nat i))"

text \<open>
  The loop of \<open>get_raw_xattr_name\<close>: \<open>pos\<close> counts the bytes written so far, \<open>raw\<close> holds
  them.  Each assertion is checked before the bytes of its round are written.
\<close>

fun raw_name_loop :: "string \<Rightarrow> int \<Rightarrow> int \<Rightarrow> string \<Rightarrow> fault + (int \<times> string)" where
  "raw_name_loop [] pos raw_len raw = Inr (pos, raw)"
| "raw_name_loop (c # cs) pos raw_len raw =
     (if c = CHR ''@'' then
        (if pos + 2 < raw_len - 1
         then raw_name_loop cs (pos + 2) raw_len (raw @ [CHR ''@'', CHR ''@''])
         else Inl AssertFailed)
      else
        (if pos + 1 < raw_len - 1
         then raw_name_loop cs (pos + 1) raw_len (raw @ [c])
         else Inl AssertFailed))"

definition get_raw_xattr_name :: "string \<Rightarrow> int \<Rightarrow> int \<Rightarrow> fault + string" where
  "get_raw_xattr_name name i raw_len =
     (case raw_name_loop name 0 raw_len [] of
        Inl e \<Rightarrow> Inl e
      | Inr (pos, raw) \<Rightarrow>
          if i = 0 then Inr raw
          else
            let suffix = CHR ''@'' # show_int i; r = int (length suffix)
            in if r < raw_len - pos then Inr (raw @ suffix) else Inl AssertFailed)"

text \<open>
  \<open>translate_raw_name\<close> scans the memory at \<open>raw_name\<close>.  The result is the returned
  \<open>pos\<close>, the cells of \<open>name\<close> before the final terminator, and \<open>is_first\<close>.  A cell is
  \<open>None\<close> when the code steps over it without storing a byte.

  In the case \<open>'@'\<close> the statement \<open>break\<close> that follows the test for the terminator
  leaves the \<open>switch\<close>, not the loop: the code goes on with \<open>pos++\<close>, \<open>name++\<close> and
  \<open>raw_name++\<close>, which moves \<open>raw_name\<close> behind the terminator.
\<close>

fun translate_raw_name_loop ::
  "string \<Rightarrow> int \<Rightarrow> int \<Rightarrow> char option list \<Rightarrow> fault + (int \<times> char option list \<times> bool)" where
  "translate_raw_name_loop [] pos name_len name = Inl ReadPastEnd"
| "translate_raw_name_loop (c # cs) pos name_len name =
     (if c = NUL then Inr (pos, name, True)
      else if c = CHR ''@'' then
        (case cs of
           [] \<Rightarrow> Inl ReadPastEnd
         | d # ds \<Rightarrow>
             if d = NUL then
               (if pos + 1 < name_len
                then translate_raw_name_loop ds (pos + 1) name_len (name @ [None])
                else Inl AssertFailed)
             else if d \<noteq> CHR ''@'' then Inr (pos, name, False)
             else
               (if pos + 1 < name_len
                then translate_raw_name_loop ds (pos + 1) name_len (name @ [Some d])
                else Inl AssertFailed))
      else
        (if pos + 1 < name_len
         then translate_raw_name_loop cs (pos + 1) name_len (name @ [Some c])
         else Inl AssertFailed))"

definition translate_raw_name ::
  "string \<Rightarrow> int \<Rightarrow> fault + (int \<times> char option list \<times> bool)" where
  "translate_raw_name raw_name name_len = translate_raw_name_loop raw_name 0 name_len []"

text \<open>
  The physical key in the words of the specification: every escape character doubled,
  then the suffix \<open>@i\<close> for a chunk index other than 0.
\<close>

definition escaped :: "string \<Rightarrow> string" where
  "escaped name = concat (map (\<lambda>c. if c = CHR ''@'' then [CHR ''@'', CHR ''@''] else [c]) name)"

definition chunk_suffix :: "int \<Rightarrow> string" where
  "chunk_suffix i = (if i = 0 then [] else CHR ''@'' # show_int i)"

definition physical_key :: "string \<Rightarrow> int \<Rightarrow> string" where
  "physical_key name i = escaped name @ chunk_suffix i"

text \<open>The assertions of \<open>get_raw_xattr_name\<close> hold: the key fits into \<open>raw_len\<close> bytes.\<close>

definition key_fits :: "string \<Rightarrow> int \<Rightarrow> int \<Rightarrow> bool" where
  "key_fits name i raw_len \<longleftrightarrow>
     (name = [] \<or> int (length (escaped name)) < raw_len - 1) \<and>
     (i = 0 \<or> int (length (chunk_suffix i)) < raw_len - int (length (escaped name)))"

subsection \<open>The primitive attribute operations\<close>

text \<open>
  \<open>sys_getxattr\<close>, \<open>sys_removexattr\<close>, \<open>sys_listxattr\<close> and their descriptor variants are
  the capability interface the chaining layer calls; they are parameters of the model.
  \<^item> \<open>getx key size\<close> is \<open>sys_getxattr(fn, key, buf, size)\<close> on a fixed object: the
    returned \<open>int\<close> and the bytes stored at \<open>buf\<close> (on success as many as the return
    value says).
  \<^item> \<open>rm fs key\<close> is \<open>sys_removexattr(fn, key)\<close> on the state \<open>fs\<close> of the object: the
    returned \<open>int\<close> and the state after the call.
  \<^item> \<open>listx size\<close> is \<open>sys_listxattr(fn, buf, size)\<close>.
  The path functions and the descriptor functions of the source have the same text apart
  from the primitive they call, so one definition with the primitive as argument models
  each pair.
\<close>

type_synonym sys_getxattr_t = "string \<Rightarrow> nat \<Rightarrow> int \<times> string"
type_synonym 'fs sys_removexattr_t = "'fs \<Rightarrow> string \<Rightarrow> int \<times> 'fs"
type_synonym sys_listxattr_t = "nat \<Rightarrow> int \<times> string"

subsection \<open>Reading\<close>

text \<open>The \<open>do \<dots> while\<close> loop of \<open>getxattr_len\<close>, entered with \<open>i\<close> and \<open>total\<close> (here \<open>tot\<close>).\<close>

partial_function (option) getxattr_len_loop ::
  "chain_consts \<Rightarrow> sys_getxattr_t \<Rightarrow> string \<Rightarrow> int \<Rightarrow> int \<Rightarrow> (fault + int) option" where
  "getxattr_len_loop K getx name i tot =
     (case get_raw_xattr_name name i (name_buf_len K) of
        Inl e \<Rightarrow> Some (Inl e)
      | Inr raw_name \<Rightarrow>
          let r = fst (getx raw_name 0) in
          if i = 0 \<and> r < 0 then Some (Inr r)
          else if r < 0 then Some (Inr tot)
          else if r = CHAIN_XATTR_MAX_BLOCK_LEN K \<or> r = CHAIN_XATTR_SHORT_BLOCK_LEN K
          then getxattr_len_loop K getx name (wrap_int (i + 1)) (wrap_int (tot + r))
          else Some (Inr (wrap_int (tot + r))))"

declare getxattr_len_loop.simps [code]

definition getxattr_len :: "chain_consts \<Rightarrow> sys_getxattr_t \<Rightarrow> string \<Rightarrow> (fault + int) option" where
  "getxattr_len K getx name = getxattr_len_loop K getx name 0 0"

text \<open>\<open>chain_fgetxattr_len\<close> has the text of \<open>getxattr_len\<close>, with \<open>sys_fgetxattr\<close>.\<close>

definition chain_fgetxattr_len ::
  "chain_consts \<Rightarrow> sys_getxattr_t \<Rightarrow> string \<Rightarrow> (fault + int) option" where
  "chain_fgetxattr_len K fgetx name = getxattr_len_loop K fgetx name 0 0"

text \<open>
  The code of \<open>chain_getxattr\<close> after its loop, reached with \<open>r >= 0\<close>: the probe for
  another chunk.  The result is the returned value and the bytes stored in \<open>val\<close>.
\<close>

definition chain_getxattr_probe ::
  "chain_consts \<Rightarrow> sys_getxattr_t \<Rightarrow> string \<Rightarrow> int \<Rightarrow> int \<Rightarrow> nat \<Rightarrow> string
     \<Rightarrow> fault + (int \<times> string)" where
  "chain_getxattr_probe K getx name i pos chunk_size val =
     (if int chunk_size = CHAIN_XATTR_MAX_BLOCK_LEN K \<or>
         int chunk_size = CHAIN_XATTR_SHORT_BLOCK_LEN K
      then
        (case get_raw_xattr_name name i (name_buf_len K) of
           Inl e \<Rightarrow> Inl e
         | Inr raw_name \<Rightarrow>
             let r = fst (getx raw_name 0) in
             if r > 0 then Inr (- ERANGE, val) else Inr (pos, val))
      else Inr (pos, val))"

text \<open>
  The loop of \<open>chain_getxattr\<close>, with \<open>sz\<close> for the variable \<open>size\<close>.  The bytes of a
  chunk are stored at \<open>val + pos\<close>, behind the bytes of the chunks before it.
\<close>

partial_function (option) chain_getxattr_loop ::
  "chain_consts \<Rightarrow> sys_getxattr_t \<Rightarrow> string \<Rightarrow> int \<Rightarrow> int \<Rightarrow> nat \<Rightarrow> string
     \<Rightarrow> (fault + (int \<times> string)) option" where
  "chain_getxattr_loop K getx name i pos sz val =
     (let chunk_size = sz in
      case get_raw_xattr_name name i (name_buf_len K) of
        Inl e \<Rightarrow> Some (Inl e)
      | Inr raw_name \<Rightarrow>
          let (r, data) = getx raw_name chunk_size in
          if i \<noteq> 0 \<and> r = - ENODATA then Some (Inr (pos, val))
          else if r < 0 then Some (Inr (r, val))
          else
            let pos' = (if r > 0 then wrap_int (pos + r) else pos);
                sz' = (if r > 0 then nat ((int sz - r) mod 2 ^ 64) else sz);
                val' = val @ data
            in if sz' \<noteq> 0 \<and>
                  (r = CHAIN_XATTR_MAX_BLOCK_LEN K \<or> r = CHAIN_XATTR_SHORT_BLOCK_LEN K)
               then chain_getxattr_loop K getx name (wrap_int (i + 1)) pos' sz' val'
               else Some (chain_getxattr_probe K getx name (wrap_int (i + 1)) pos' chunk_size
                      val'))"

declare chain_getxattr_loop.simps [code]

definition chain_getxattr ::
  "chain_consts \<Rightarrow> sys_getxattr_t \<Rightarrow> string \<Rightarrow> nat \<Rightarrow> (fault + (int \<times> string)) option" where
  "chain_getxattr K getx name sz =
     (if sz = 0
      then map_option (map_sum id (\<lambda>r. (r, []))) (getxattr_len K getx name)
      else chain_getxattr_loop K getx name 0 0 sz [])"

text \<open>
  \<open>chain_fgetxattr\<close> has the text of \<open>chain_getxattr\<close>, with \<open>sys_fgetxattr\<close> and
  \<open>chain_fgetxattr_len\<close>.
\<close>

definition chain_fgetxattr ::
  "chain_consts \<Rightarrow> sys_getxattr_t \<Rightarrow> string \<Rightarrow> nat \<Rightarrow> (fault + (int \<times> string)) option" where
  "chain_fgetxattr K fgetx name sz =
     (if sz = 0
      then map_option (map_sum id (\<lambda>r. (r, []))) (chain_fgetxattr_len K fgetx name)
      else chain_getxattr_loop K fgetx name 0 0 sz [])"

text \<open>
  \<open>chain_getxattr_buf\<close>: the loop with its buffer size.  The result is the returned value
  and, when the code swaps a buffer into \<open>*bp\<close>, the contents of that buffer.
\<close>

partial_function (option) chain_getxattr_buf_loop ::
  "chain_consts \<Rightarrow> sys_getxattr_t \<Rightarrow> string \<Rightarrow> nat \<Rightarrow> (fault + (int \<times> string option)) option" where
  "chain_getxattr_buf_loop K getx name sz =
     (case chain_getxattr K getx name sz of
        None \<Rightarrow> None
      | Some (Inl e) \<Rightarrow> Some (Inl e)
      | Some (Inr (r, val)) \<Rightarrow>
          if r > 0 then Some (Inr (r, Some (take (nat r) val)))
          else if r = 0 then Some (Inr (0, None))
          else if r = - ERANGE
          then chain_getxattr_buf_loop K getx name ((sz * 2) mod 2 ^ 64)
          else Some (Inr (r, None)))"

declare chain_getxattr_buf_loop.simps [code]

definition chain_getxattr_buf ::
  "chain_consts \<Rightarrow> sys_getxattr_t \<Rightarrow> string \<Rightarrow> (fault + (int \<times> string option)) option" where
  "chain_getxattr_buf K getx name = chain_getxattr_buf_loop K getx name 1024"

definition get_xattr_block_size :: "chain_consts \<Rightarrow> nat \<Rightarrow> int" where
  "get_xattr_block_size K sz =
     (if int sz \<le> CHAIN_XATTR_SHORT_LEN_THRESHOLD K then CHAIN_XATTR_SHORT_BLOCK_LEN K
      else CHAIN_XATTR_MAX_BLOCK_LEN K)"

subsection \<open>Removing\<close>

partial_function (option) chain_removexattr_loop ::
  "chain_consts \<Rightarrow> 'fs sys_removexattr_t \<Rightarrow> string \<Rightarrow> int \<Rightarrow> 'fs \<Rightarrow> ((fault + int) \<times> 'fs) option" where
  "chain_removexattr_loop K rm name i fs =
     (case get_raw_xattr_name name i (name_buf_len K) of
        Inl e \<Rightarrow> Some (Inl e, fs)
      | Inr raw_name \<Rightarrow>
          let (r, fs') = rm fs raw_name in
          if i = 0 \<and> r < 0 then Some (Inr r, fs')
          else if r \<ge> 0 then chain_removexattr_loop K rm name (wrap_int (i + 1)) fs'
          else Some (Inr 0, fs'))"

declare chain_removexattr_loop.simps [code]

definition chain_removexattr ::
  "chain_consts \<Rightarrow> 'fs sys_removexattr_t \<Rightarrow> string \<Rightarrow> 'fs \<Rightarrow> ((fault + int) \<times> 'fs) option" where
  "chain_removexattr K rm name fs = chain_removexattr_loop K rm name 0 fs"

definition chain_fremovexattr ::
  "chain_consts \<Rightarrow> 'fs sys_removexattr_t \<Rightarrow> string \<Rightarrow> 'fs \<Rightarrow> ((fault + int) \<times> 'fs) option" where
  "chain_fremovexattr = chain_removexattr"

subsection \<open>Listing\<close>

text \<open>\<open>strcpy(dest, name)\<close>: the bytes of \<open>name\<close> and its terminator.\<close>

definition strcpy_name :: "char option list \<Rightarrow> fault + string" where
  "strcpy_name name = (if None \<in> set name then Inl IndeterminateRead else Inr (map the name @ [NUL]))"

text \<open>
  The loop \<open>while (p < end)\<close> of \<open>chain_listxattr\<close>: \<open>buf\<close> holds the bytes from
  \<open>full_buf\<close> to \<open>end\<close>, \<open>p\<close> and \<open>dest\<close> are the offsets of the pointers \<open>p\<close> in
  \<open>full_buf\<close> and \<open>dest\<close> in \<open>names\<close>, \<open>written\<close> the bytes stored in \<open>names\<close> so far.
  \<open>attr_len\<close> and the step \<open>attr_len + 1\<close> are of type \<open>int\<close>, and so is the result
  \<open>dest - names\<close>.  The test before \<open>strcpy\<close> lets a name through when only its
  terminator is outside the \<open>len\<close> bytes of \<open>names\<close>: the fault \<open>BufferOverrun\<close>.
\<close>

partial_function (option) listxattr_loop ::
  "string \<Rightarrow> int \<Rightarrow> int \<Rightarrow> int \<Rightarrow> int \<Rightarrow> string \<Rightarrow> (fault + (int \<times> string)) option" where
  "listxattr_loop buf p name_size dest len written =
     (if \<not> p < int (length buf) then Some (Inr (wrap_int dest, written))
      else if p < 0 then Some (Inl ReadPastEnd)
      else
        let mem = drop (nat p) buf in
        if NUL \<notin> set mem then Some (Inl ReadPastEnd)
        else
          let attr_len = wrap_int (int (length (takeWhile (\<lambda>c. c \<noteq> NUL) mem))) in
          case translate_raw_name mem name_size of
            Inl e \<Rightarrow> Some (Inl e)
          | Inr (name_len, name, is_first) \<Rightarrow>
              if is_first then
                if dest + name_len > len then Some (Inr (- ERANGE, written))
                else
                  (case strcpy_name name of
                     Inl e \<Rightarrow> Some (Inl e)
                   | Inr bytes \<Rightarrow>
                       if dest + int (length bytes) > len then Some (Inl BufferOverrun)
                       else listxattr_loop buf (p + wrap_int (attr_len + 1)) name_size
                              (dest + name_len + 1) len (written @ bytes))
              else listxattr_loop buf (p + wrap_int (attr_len + 1)) name_size dest len written)"

declare listxattr_loop.simps [code]

text \<open>
  \<open>malloc_ok n\<close> tells whether \<open>malloc(n)\<close> returns a buffer.  The product \<open>r * 2\<close> is
  computed in \<open>int\<close> and then converted to \<open>size_t\<close>.
\<close>

definition chain_listxattr ::
  "chain_consts \<Rightarrow> sys_listxattr_t \<Rightarrow> (nat \<Rightarrow> bool) \<Rightarrow> nat
     \<Rightarrow> (fault + (int \<times> string)) option" where
  "chain_listxattr K listx malloc_ok len =
     (if len = 0 then Some (Inr (wrap_int (fst (listx 0) * 2), []))
      else
        let r = fst (listx 0) in
        if r < 0 then Some (Inr (r, []))
        else
          let total_len = nat (wrap_int (r * 2) mod 2 ^ 64) in
          if \<not> malloc_ok total_len then Some (Inr (- ENOMEM, []))
          else
            let (r, full_buf) = listx total_len in
            if r < 0 then Some (Inr (r, []))
            else listxattr_loop (take (nat r) full_buf) 0 (name_buf_len K) 0 (int len) [])"

text \<open>\<open>chain_flistxattr\<close> has the same statements, with \<open>sys_flistxattr\<close>.\<close>

definition chain_flistxattr ::
  "chain_consts \<Rightarrow> sys_listxattr_t \<Rightarrow> (nat \<Rightarrow> bool) \<Rightarrow> nat
     \<Rightarrow> (fault + (int \<times> string)) option" where
  "chain_flistxattr = chain_listxattr"

subsection \<open>A store of physical attributes\<close>

text \<open>
  Modelled from the spec: the primitive operations on one object, which the sources at hand
  only call.  The object holds a list of physical attributes, key and value.  \<open>get\<close> with
  capacity 0 reports the length of the value and stores nothing; a key that is not there
  is "no such attribute"; a capacity that is too small is "buffer too small".  \<open>remove\<close>
  deletes one key.  \<open>list\<close> returns the keys, each with its terminator, and with capacity 0
  the number of bytes that takes.
\<close>

type_synonym xattr_store = "(string \<times> string) list"

definition store_getxattr :: "xattr_store \<Rightarrow> sys_getxattr_t" where
  "store_getxattr st key sz =
     (case map_of st key of
        None \<Rightarrow> (- ENODATA, [])
      | Some v \<Rightarrow>
          if sz = 0 then (int (length v), [])
          else if sz < length v then (- ERANGE, [])
          else (int (length v), v))"

definition store_removexattr :: "xattr_store sys_removexattr_t" where
  "store_removexattr st key =
     (case map_of st key of
        None \<Rightarrow> (- ENODATA, st)
      | Some v \<Rightarrow> (0, filter (\<lambda>kv. fst kv \<noteq> key) st))"

definition key_stream :: "string list \<Rightarrow> string" where
  "key_stream keys = concat (map (\<lambda>k. k @ [NUL]) keys)"

definition store_listxattr :: "xattr_store \<Rightarrow> sys_listxattr_t" where
  "store_listxattr st sz =
     (let bytes = key_stream (map fst st) in
      if sz = 0 then (int (length bytes), [])
      else if sz < length bytes then (- ERANGE, [])
      else (int (length bytes), bytes))"

subsection \<open>Example values\<close>

text \<open>The constants as \<open>chain_xattr.h\<close> sets them on Linux, for the examples below.\<close>

definition linux_consts :: chain_consts where
  "linux_consts =
     \<lparr>CHAIN_XATTR_MAX_NAME_LEN = 128, CHAIN_XATTR_MAX_BLOCK_LEN = 2048,
      CHAIN_XATTR_SHORT_BLOCK_LEN = 250, CHAIN_XATTR_SHORT_LEN_THRESHOLD = 1000\<rparr>"

text \<open>Small block sizes keep the example chains short.\<close>

definition small_consts :: chain_consts where
  "small_consts =
     \<lparr>CHAIN_XATTR_MAX_NAME_LEN = 128, CHAIN_XATTR_MAX_BLOCK_LEN = 4,
      CHAIN_XATTR_SHORT_BLOCK_LEN = 2, CHAIN_XATTR_SHORT_LEN_THRESHOLD = 3\<rparr>"

subsection \<open>Vocabulary of the claims\<close>

text \<open>The value of the zero-length probe of chunk \<open>j\<close>: \<open>sys_getxattr(fn, key, 0, 0)\<close>.\<close>

definition probe_len :: "sys_getxattr_t \<Rightarrow> string \<Rightarrow> nat \<Rightarrow> int" where
  "probe_len getx name j = fst (getx (physical_key name (int j)) 0)"

text \<open>
  The store holds the chain of \<open>name\<close> with exactly these chunks: chunk \<open>j\<close> under the
  key of index \<open>j\<close>, and no attribute under the key of the next index.
\<close>

definition chain_stored :: "xattr_store \<Rightarrow> string \<Rightarrow> string list \<Rightarrow> bool" where
  "chain_stored st name chunks \<longleftrightarrow>
     (\<forall>j<length chunks. map_of st (physical_key name (int j)) = Some (chunks ! j)) \<and>
     map_of st (physical_key name (int (length chunks))) = None"

text \<open>A length that makes the reader go on to the next chunk.\<close>

definition block_len :: "chain_consts \<Rightarrow> int \<Rightarrow> bool" where
  "block_len K r \<longleftrightarrow> r = CHAIN_XATTR_MAX_BLOCK_LEN K \<or> r = CHAIN_XATTR_SHORT_BLOCK_LEN K"

text \<open>
  The attributes of an object as the chaining layer writes them: an entry is a logical
  name with a chunk index.  \<open>entry_keys\<close> are the physical keys of the entries, and
  \<open>listed_names\<close> is the listing the specification asks for: the names of the entries
  of chunk 0, each with its terminator, in the order of the entries.
\<close>

definition entry_keys :: "(string \<times> nat) list \<Rightarrow> string list" where
  "entry_keys es = map (\<lambda>e. physical_key (fst e) (int (snd e))) es"

definition listed_names :: "(string \<times> nat) list \<Rightarrow> string" where
  "listed_names es = key_stream (map fst (filter (\<lambda>e. snd e = 0) es))"

text \<open>
  The run of \<open>chain_removexattr\<close> as long as it goes on: the state of the object before
  the removal of chunk \<open>j\<close>, and what that removal returns.
\<close>

primrec removal_state :: "'fs sys_removexattr_t \<Rightarrow> string \<Rightarrow> 'fs \<Rightarrow> nat \<Rightarrow> 'fs" where
  "removal_state rm name fs 0 = fs"
| "removal_state rm name fs (Suc j) =
     snd (rm (removal_state rm name fs j) (physical_key name (int j)))"

definition removal_ret :: "'fs sys_removexattr_t \<Rightarrow> string \<Rightarrow> 'fs \<Rightarrow> nat \<Rightarrow> int" where
  "removal_ret rm name fs j = fst (rm (removal_state rm name fs j) (physical_key name (int j)))"

text \<open>
  An object with the chain of \<open>a\<close> (chunks of 4, 4 and 1 bytes) and the chain of \<open>b@\<close>
  (chunks of 2 and 1 bytes), for \<open>small_consts\<close>.
\<close>

definition example_store :: xattr_store where
  "example_store =
     [(''a'', ''abcd''), (''a@1'', ''efgh''), (''a@2'', ''i''), (''b@@'', ''xy''), (''b@@@1'', ''z'')]"

text \<open>An object with one attribute of 1025 bytes in a single chunk.\<close>

definition big_store :: xattr_store where
  "big_store = [(''v'', replicate 1025 CHR ''x'')]"

text \<open>An object with one attribute whose only chunk has a block size of \<open>small_consts\<close>.\<close>

definition exact_store :: xattr_store where
  "exact_store = [(''e'', ''abcd'')]"

section \<open>Values in the range of \<open>int\<close>\<close>

lemma wrap_int_id: "- (2 ^ 31) \<le> x \<Longrightarrow> x < 2 ^ 31 \<Longrightarrow> wrap_int x = x"
proof -
  assume a: "- (2 ^ 31) \<le> x" "x < 2 ^ 31"
  have "(x + 2 ^ 31) mod 2 ^ 32 = x + 2 ^ 31"
    using a by (intro mod_pos_pos_trivial) simp_all
  then show ?thesis unfolding wrap_int_def by simp
qed

lemma wrap_int_nonneg: "0 \<le> x \<Longrightarrow> x < 2 ^ 31 \<Longrightarrow> wrap_int x = x"
  by (rule wrap_int_id) simp_all

lemma wrap_int_Suc: "int (Suc i) < 2 ^ 31 \<Longrightarrow> wrap_int (int i + 1) = int (Suc i)"
  using wrap_int_nonneg [of "int (Suc i)"] by (simp add: add.commute)

section \<open>Properties of the name codec\<close>

subsection \<open>Decimal digits\<close>

lemma digit_in: "d < 10 \<Longrightarrow> ''0123456789'' ! d \<in> set ''0123456789''"
  by (rule nth_mem) simp

lemma digit_not_special:
  assumes "d < 10"
  shows "''0123456789'' ! d \<noteq> CHR ''@'' \<and> ''0123456789'' ! d \<noteq> NUL"
  using digit_in [OF assms] by auto

lemma show_nat_chars: "c \<in> set (show_nat n) \<Longrightarrow> c \<noteq> CHR ''@'' \<and> c \<noteq> NUL"
proof (induction n rule: show_nat.induct)
  case (1 n)
  show ?case
  proof (cases "n < 10")
    case True
    with "1.prems" have "c = ''0123456789'' ! n"
      by (simp add: show_nat.simps [of n])
    with True digit_not_special [of n] show ?thesis by simp
  next
    case False
    with "1.prems" have "c \<in> set (show_nat (n div 10) @ [''0123456789'' ! (n mod 10)])"
      by (simp only: show_nat.simps [of n] if_False)
    then have "c \<in> set (show_nat (n div 10)) \<or> c = ''0123456789'' ! (n mod 10)"
      by auto
    then show ?thesis
    proof
      assume "c \<in> set (show_nat (n div 10))"
      with False show ?thesis by (rule "1.IH")
    next
      assume "c = ''0123456789'' ! (n mod 10)"
      then show ?thesis using digit_not_special [of "n mod 10"] by simp
    qed
  qed
qed

lemma show_nat_nonempty: "show_nat n \<noteq> []"
  by (simp add: show_nat.simps [of n])

lemma show_int_nonempty: "show_int i \<noteq> []"
  by (simp add: show_int_def show_nat_nonempty)

lemma show_int_chars: "c \<in> set (show_int i) \<Longrightarrow> c \<noteq> CHR ''@'' \<and> c \<noteq> NUL"
  by (auto simp: show_int_def dest: show_nat_chars split: if_splits)

lemma length_show_nat: "0 < k \<Longrightarrow> n < 10 ^ k \<Longrightarrow> length (show_nat n) \<le> k"
proof (induction k arbitrary: n)
  case 0
  then show ?case by simp
next
  case (Suc k)
  show ?case
  proof (cases "n < 10")
    case True
    then show ?thesis by (simp add: show_nat.simps [of n])
  next
    case False
    with Suc.prems have k: "0 < k" by (cases k) auto
    from Suc.prems have "n div 10 < 10 ^ k" by (simp add: less_mult_imp_div_less mult.commute)
    with k have "length (show_nat (n div 10)) \<le> k" by (rule Suc.IH)
    with False show ?thesis by (simp add: show_nat.simps [of n])
  qed
qed

lemma length_chunk_suffix: "0 \<le> i \<Longrightarrow> i < 2 ^ 31 \<Longrightarrow> length (chunk_suffix i) \<le> 11"
proof -
  assume i: "0 \<le> i" "i < 2 ^ 31"
  then have "nat i < 10 ^ 10" by simp
  then have "length (show_nat (nat i)) \<le> 10" by (rule length_show_nat [rotated]) simp
  with i show ?thesis by (simp add: chunk_suffix_def show_int_def)
qed

subsection \<open>Encoding\<close>

lemma escaped_Nil [simp]: "escaped [] = []"
  by (simp add: escaped_def)

lemma escaped_Cons:
  "escaped (c # cs) = (if c = CHR ''@'' then [CHR ''@'', CHR ''@''] else [c]) @ escaped cs"
  by (simp add: escaped_def)

lemma escaped_c_string: "c_string name \<Longrightarrow> c_string (escaped name)"
  by (induction name) (auto simp: c_string_def escaped_Cons)

lemma length_escaped_le: "length (escaped name) \<le> 2 * length name"
  by (induction name) (auto simp: escaped_Cons)

lemma raw_name_loop_eq:
  "raw_name_loop name pos raw_len raw =
     (if name = [] \<or> pos + int (length (escaped name)) < raw_len - 1
      then Inr (pos + int (length (escaped name)), raw @ escaped name)
      else Inl AssertFailed)"
proof (induction name arbitrary: pos raw)
  case Nil
  show ?case by simp
next
  case (Cons c cs)
  show ?case
    by (auto simp: Cons.IH escaped_Cons)
qed

text \<open>
  \<open>get_raw_xattr_name\<close> refines the key of the specification: it returns that key or
  fails an assertion.
\<close>

lemma get_raw_xattr_name_eq:
  "get_raw_xattr_name name i raw_len =
     (if key_fits name i raw_len then Inr (physical_key name i) else Inl AssertFailed)"
  by (auto simp: get_raw_xattr_name_def raw_name_loop_eq key_fits_def physical_key_def
      chunk_suffix_def Let_def)

text \<open>A name of at most \<open>CHAIN_XATTR_MAX_NAME_LEN\<close> bytes fits with every index of an \<open>int\<close>.\<close>

lemma key_fits_max_name:
  assumes "int (length name) \<le> CHAIN_XATTR_MAX_NAME_LEN K" and "0 \<le> i" and "i < 2 ^ 31"
  shows "key_fits name i (name_buf_len K)"
proof -
  have "int (length (escaped name)) \<le> 2 * int (length name)"
    using length_escaped_le [of name] by simp
  moreover have "int (length (chunk_suffix i)) \<le> 11"
    using length_chunk_suffix [OF assms(2,3)] by simp
  ultimately show ?thesis
    using assms(1) by (simp add: key_fits_def name_buf_len_def)
qed

subsection \<open>Decoding\<close>

lemma translate_escaped_first:
  assumes "c_string name" and "name = [] \<or> pos + int (length name) < name_len"
  shows "translate_raw_name_loop (escaped name @ NUL # rest) pos name_len out =
           Inr (pos + int (length name), out @ map Some name, True)"
  using assms
proof (induction name arbitrary: pos out)
  case Nil
  then show ?case by simp
next
  case (Cons c cs)
  from Cons.prems have c: "c \<noteq> NUL" and cs: "c_string cs"
    by (auto simp: c_string_def)
  from Cons.prems have len: "pos + 1 < name_len" "cs = [] \<or> (pos + 1) + int (length cs) < name_len"
    by auto
  have IH: "translate_raw_name_loop (escaped cs @ NUL # rest) (pos + 1) name_len (out @ [Some c]) =
      Inr (pos + 1 + int (length cs), (out @ [Some c]) @ map Some cs, True)"
    using cs len(2) by (rule Cons.IH)
  show ?case
    using c len(1) IH by (auto simp: escaped_Cons)
qed

lemma translate_escaped_suffix:
  assumes "c_string name" and "name = [] \<or> pos + int (length name) < name_len"
    and "d \<noteq> NUL" and "d \<noteq> CHR ''@''"
  shows "translate_raw_name_loop (escaped name @ CHR ''@'' # d # rest) pos name_len out =
           Inr (pos + int (length name), out @ map Some name, False)"
  using assms(1,2)
proof (induction name arbitrary: pos out)
  case Nil
  then show ?case using assms(3,4) by simp
next
  case (Cons c cs)
  from Cons.prems have c: "c \<noteq> NUL" and cs: "c_string cs"
    by (auto simp: c_string_def)
  from Cons.prems have len: "pos + 1 < name_len" "cs = [] \<or> (pos + 1) + int (length cs) < name_len"
    by auto
  have IH: "translate_raw_name_loop (escaped cs @ CHR ''@'' # d # rest) (pos + 1) name_len (out @ [Some c]) =
      Inr (pos + 1 + int (length cs), (out @ [Some c]) @ map Some cs, False)"
    using cs len(2) by (rule Cons.IH)
  show ?case
    using c len(1) IH by (auto simp: escaped_Cons)
qed

lemma name_len_ok:
  "int (length name) \<le> CHAIN_XATTR_MAX_NAME_LEN K \<Longrightarrow> int (length name) < name_buf_len K"
  by (simp add: name_buf_len_def)

lemma translate_chunk0_key:
  assumes "c_string name" and "int (length name) \<le> CHAIN_XATTR_MAX_NAME_LEN K"
  shows "translate_raw_name (physical_key name 0 @ NUL # rest) (name_buf_len K) =
           Inr (int (length name), map Some name, True)"
  using translate_escaped_first [OF assms(1), of 0 "name_buf_len K" rest "[]"]
    name_len_ok [OF assms(2)]
  by (simp add: translate_raw_name_def physical_key_def chunk_suffix_def)

lemma translate_chunk_key:
  assumes "c_string name" and "int (length name) \<le> CHAIN_XATTR_MAX_NAME_LEN K" and "i \<noteq> 0"
  shows "translate_raw_name (physical_key name i @ NUL # rest) (name_buf_len K) =
           Inr (int (length name), map Some name, False)"
proof -
  obtain d ds where ds: "show_int i = d # ds"
    using show_int_nonempty [of i] by (cases "show_int i") auto
  then have d: "d \<noteq> NUL" "d \<noteq> CHR ''@''"
    using show_int_chars [of d i] by auto
  show ?thesis
    using translate_escaped_suffix [OF assms(1) _ d, of 0 "name_buf_len K" "ds @ NUL # rest" "[]"]
      name_len_ok [OF assms(2)] assms(3) ds
    by (simp add: translate_raw_name_def physical_key_def chunk_suffix_def)
qed

section \<open>The claims about the name codec\<close>

text \<open>
  C3.  For every logical name (a C string of at most \<open>CHAIN_XATTR_MAX_NAME_LEN\<close> bytes,
  with any number of \<open>@\<close>) the key of chunk 0 is written without a failing assertion, and
  decoding that key, whatever follows its terminator in memory, gives back the name and
  \<open>is_first = true\<close>; the returned length is the length of the name.
\<close>

theorem roundtrip_first_chunk:
  assumes "c_string name" and "int (length name) \<le> CHAIN_XATTR_MAX_NAME_LEN K"
  shows "\<exists>raw_name. get_raw_xattr_name name 0 (name_buf_len K) = Inr raw_name \<and>
           translate_raw_name (raw_name @ NUL # rest) (name_buf_len K) =
             Inr (int (length name), map Some name, True)"
  using translate_chunk0_key [OF assms, of rest] key_fits_max_name [OF assms(2), of 0]
  by (simp add: get_raw_xattr_name_eq)

theorem roundtrip_first_chunk_witness:
  "c_string ''a@b'' \<and> int (length ''a@b'') \<le> CHAIN_XATTR_MAX_NAME_LEN linux_consts \<and>
   get_raw_xattr_name ''a@b'' 0 (name_buf_len linux_consts) = Inr ''a@@b'' \<and>
   translate_raw_name (''a@@b'' @ [NUL]) (name_buf_len linux_consts) =
     Inr (3, [Some CHR ''a'', Some CHR ''@'', Some CHR ''b''], True)"
proof -
  have h1: "c_string ''a@b''" by (simp add: c_string_def)
  have h2: "int (length ''a@b'') \<le> CHAIN_XATTR_MAX_NAME_LEN linux_consts"
    by (simp add: linux_consts_def)
  have enc: "get_raw_xattr_name ''a@b'' 0 (name_buf_len linux_consts) = Inr ''a@@b''"
    by (simp add: get_raw_xattr_name_def name_buf_len_def linux_consts_def)
  from roundtrip_first_chunk [OF h1 h2, of "[]"] enc h1 h2 show ?thesis by simp
qed

text \<open>
  C4.  For every logical name (as in C3) and every chunk index \<open>i > 0\<close> of an \<open>int\<close>, the
  key of chunk \<open>i\<close> is written without a failing assertion, and decoding it gives back
  the name and \<open>is_first = false\<close>.  The key of chunk 1 of \<open>a@b\<close> is \<open>a@@b@1\<close>.
\<close>

theorem roundtrip_later_chunk:
  assumes "c_string name" and "int (length name) \<le> CHAIN_XATTR_MAX_NAME_LEN K"
    and "0 < i" and "i < 2 ^ 31"
  shows "(\<exists>raw_name. get_raw_xattr_name name i (name_buf_len K) = Inr raw_name \<and>
            translate_raw_name (raw_name @ NUL # rest) (name_buf_len K) =
              Inr (int (length name), map Some name, False)) \<and>
         physical_key ''a@b'' 1 = ''a@@b@1''"
proof
  from assms(3) have i: "i \<noteq> 0" "0 \<le> i" by simp_all
  show "\<exists>raw_name. get_raw_xattr_name name i (name_buf_len K) = Inr raw_name \<and>
           translate_raw_name (raw_name @ NUL # rest) (name_buf_len K) =
             Inr (int (length name), map Some name, False)"
    using translate_chunk_key [OF assms(1,2) i(1), of rest]
      key_fits_max_name [OF assms(2) i(2) assms(4)]
    by (simp add: get_raw_xattr_name_eq)
  show "physical_key ''a@b'' 1 = ''a@@b@1''"
    by (simp add: physical_key_def escaped_def chunk_suffix_def show_int_def show_nat.simps)
qed

theorem roundtrip_later_chunk_witness:
  "c_string ''a@b'' \<and> int (length ''a@b'') \<le> CHAIN_XATTR_MAX_NAME_LEN linux_consts \<and>
   (0::int) < 1 \<and> (1::int) < 2 ^ 31 \<and>
   get_raw_xattr_name ''a@b'' 1 (name_buf_len linux_consts) = Inr ''a@@b@1'' \<and>
   translate_raw_name (''a@@b@1'' @ [NUL]) (name_buf_len linux_consts) =
     Inr (3, [Some CHR ''a'', Some CHR ''@'', Some CHR ''b''], False)"
proof -
  have h1: "c_string ''a@b''" by (simp add: c_string_def)
  have h2: "int (length ''a@b'') \<le> CHAIN_XATTR_MAX_NAME_LEN linux_consts"
    by (simp add: linux_consts_def)
  have h3: "(0::int) < 1" by simp
  have h4: "(1::int) < 2 ^ 31" by simp
  have enc: "get_raw_xattr_name ''a@b'' 1 (name_buf_len linux_consts) = Inr ''a@@b@1''"
    by (simp add: get_raw_xattr_name_def name_buf_len_def linux_consts_def show_int_def
        show_nat.simps)
  from roundtrip_later_chunk [OF h1 h2 h3 h4, of "[]"] enc h1 h2 show ?thesis by simp
qed

text \<open>
  C8.  A physical key whose last character is an unescaped \<open>@\<close>: here the key \<open>a@\<close>,
  followed in memory by the key \<open>b\<close>, as \<open>sys_listxattr\<close> lays keys out.  The code does
  not stop at the \<open>@\<close>: it steps over one cell of \<open>name\<close> and over the terminator, copies
  the next key as well and leaves \<open>is_first = true\<close>.
\<close>

theorem translate_raw_name_trailing_escape:
  "translate_raw_name (''a@'' @ [NUL] @ ''b'' @ [NUL]) (name_buf_len linux_consts) =
     Inr (3, [Some CHR ''a'', None, Some CHR ''b''], True)"
  by (simp add: translate_raw_name_def name_buf_len_def linux_consts_def)

section \<open>The length-only probe\<close>

lemma get_raw_key:
  assumes "int (length name) \<le> CHAIN_XATTR_MAX_NAME_LEN K" and "int j < 2 ^ 31"
  shows "get_raw_xattr_name name (int j) (name_buf_len K) = Inr (physical_key name (int j))"
  using key_fits_max_name [OF assms(1) _ assms(2)] by (simp add: get_raw_xattr_name_eq)

lemma getxattr_len_loop_sum:
  assumes name: "int (length name) \<le> CHAIN_XATTR_MAX_NAME_LEN K" and n: "int n < 2 ^ 31"
    and full: "\<forall>j<n. 0 \<le> probe_len getx name j \<and>
         (probe_len getx name j = CHAIN_XATTR_MAX_BLOCK_LEN K \<or>
          probe_len getx name j = CHAIN_XATTR_SHORT_BLOCK_LEN K)"
    and last: "probe_len getx name n < 0 \<or>
         (probe_len getx name n \<noteq> CHAIN_XATTR_MAX_BLOCK_LEN K \<and>
          probe_len getx name n \<noteq> CHAIN_XATTR_SHORT_BLOCK_LEN K)"
    and i: "i \<le> n" and tot: "0 \<le> tot"
    and bound: "tot + (\<Sum>j = i..<n. probe_len getx name j) +
         (if probe_len getx name n < 0 then 0 else probe_len getx name n) < 2 ^ 31"
  shows "getxattr_len_loop K getx name (int i) tot =
           Some (Inr (if n = 0 \<and> probe_len getx name 0 < 0 then probe_len getx name 0
                      else tot + (\<Sum>j = i..<n. probe_len getx name j) +
                           (if probe_len getx name n < 0 then 0 else probe_len getx name n)))"
  using i tot bound
proof (induction "n - i" arbitrary: i tot)
  case 0
  then have [simp]: "i = n" by simp
  have key: "get_raw_xattr_name name (int n) (name_buf_len K) = Inr (physical_key name (int n))"
    using name n by (rule get_raw_key)
  have w: "\<not> probe_len getx name n < 0 \<Longrightarrow>
      wrap_int (tot + probe_len getx name n) = tot + probe_len getx name n"
    using "0.prems"(2,3) by (intro wrap_int_nonneg) simp_all
  show ?case
    using last w
    by (subst getxattr_len_loop.simps) (auto simp: key probe_len_def Let_def)
next
  case (Suc d)
  then have lt: "i < n" and d: "d = n - Suc i" and le: "Suc i \<le> n" by simp_all
  from lt n have ii: "int i < 2 ^ 31" and si: "int (Suc i) < 2 ^ 31" by simp_all
  from name ii
  have key: "get_raw_xattr_name name (int i) (name_buf_len K) = Inr (physical_key name (int i))"
    by (rule get_raw_key)
  from full lt have r: "0 \<le> probe_len getx name i"
    "probe_len getx name i = CHAIN_XATTR_MAX_BLOCK_LEN K \<or>
     probe_len getx name i = CHAIN_XATTR_SHORT_BLOCK_LEN K"
    by auto
  have sum: "(\<Sum>j = i..<n. probe_len getx name j) =
      probe_len getx name i + (\<Sum>j = Suc i..<n. probe_len getx name j)"
    using lt by (simp add: sum.atLeast_Suc_lessThan)
  have rest: "0 \<le> (\<Sum>j = Suc i..<n. probe_len getx name j)"
    using full by (intro sum_nonneg) simp
  have lastpos: "0 \<le> (if probe_len getx name n < 0 then 0 else probe_len getx name n)"
    by simp
  from Suc.prems(3) have bound': "tot + probe_len getx name i +
      (\<Sum>j = Suc i..<n. probe_len getx name j) +
      (if probe_len getx name n < 0 then 0 else probe_len getx name n) < 2 ^ 31"
    by (simp only: sum add.assoc)
  from bound' rest lastpos have small: "tot + probe_len getx name i < 2 ^ 31" by linarith
  from Suc.prems(2) r(1) have nonneg: "0 \<le> tot + probe_len getx name i" by simp
  have w: "wrap_int (tot + probe_len getx name i) = tot + probe_len getx name i"
    using nonneg small by (rule wrap_int_nonneg)
  have step: "getxattr_len_loop K getx name (int i) tot =
      getxattr_len_loop K getx name (int (Suc i)) (tot + probe_len getx name i)"
    using r w wrap_int_Suc [OF si]
    by (subst getxattr_len_loop.simps)
       (auto simp: key probe_len_def Let_def simp del: of_nat_Suc)
  have IH: "getxattr_len_loop K getx name (int (Suc i)) (tot + probe_len getx name i) =
      Some (Inr (if n = 0 \<and> probe_len getx name 0 < 0 then probe_len getx name 0
                 else tot + probe_len getx name i +
                      (\<Sum>j = Suc i..<n. probe_len getx name j) +
                      (if probe_len getx name n < 0 then 0 else probe_len getx name n)))"
    using d le nonneg bound' by (rule Suc.hyps(1))
  show ?case
    unfolding step IH sum using lt by auto
qed

text \<open>
  C5.  Let chunk \<open>n\<close> be the first whose zero-length probe fails or reports a length other
  than the two block sizes, the probes of the chunks before it reporting a block size.
  With capacity 0 the bounded read is the length-only probe.  It returns the error of
  the primitive as it is when the probe of chunk 0 fails; otherwise it returns the sum of
  the reported lengths of the chunks 0 to \<open>n\<close>, where a failing probe of chunk \<open>n > 0\<close>
  adds nothing and is not reported.  The name is within the maximal name length, and
  the chunk indices, the sum and the value of a failing probe are in the range of an
  \<open>int\<close>.
\<close>

theorem getxattr_len_total:
  assumes "int (length name) \<le> CHAIN_XATTR_MAX_NAME_LEN K" and "int n < 2 ^ 31"
    and "\<forall>j<n. 0 \<le> probe_len getx name j \<and>
         (probe_len getx name j = CHAIN_XATTR_MAX_BLOCK_LEN K \<or>
          probe_len getx name j = CHAIN_XATTR_SHORT_BLOCK_LEN K)"
    and "probe_len getx name n < 0 \<or>
         (probe_len getx name n \<noteq> CHAIN_XATTR_MAX_BLOCK_LEN K \<and>
          probe_len getx name n \<noteq> CHAIN_XATTR_SHORT_BLOCK_LEN K)"
    and "(\<Sum>j<n. probe_len getx name j) +
         (if probe_len getx name n < 0 then 0 else probe_len getx name n) < 2 ^ 31"
    and "- (2 ^ 31) \<le> probe_len getx name n"
  shows "chain_getxattr K getx name 0 =
           Some (Inr (if n = 0 \<and> probe_len getx name 0 < 0 then probe_len getx name 0
                      else (\<Sum>j<n. probe_len getx name j) +
                           (if probe_len getx name n < 0 then 0 else probe_len getx name n), [])) \<and>
         chain_fgetxattr K getx name 0 =
           Some (Inr (if n = 0 \<and> probe_len getx name 0 < 0 then probe_len getx name 0
                      else (\<Sum>j<n. probe_len getx name j) +
                           (if probe_len getx name n < 0 then 0 else probe_len getx name n), []))"
proof -
  have b: "0 + (\<Sum>j = 0..<n. probe_len getx name j) +
         (if probe_len getx name n < 0 then 0 else probe_len getx name n) < 2 ^ 31"
    using assms(5) by (simp add: atLeast0LessThan)
  have z: "(0::int) \<le> 0" by simp
  have "0 \<le> n" by simp
  from getxattr_len_loop_sum [OF assms(1,2,3,4) this z b]
  show ?thesis
    by (simp add: chain_getxattr_def chain_fgetxattr_def getxattr_len_def
        chain_fgetxattr_len_def atLeast0LessThan)
qed

theorem getxattr_len_total_witness:
  "int (length ''a'') \<le> CHAIN_XATTR_MAX_NAME_LEN small_consts \<and>
   probe_len (store_getxattr example_store) ''a'' 0 = 4 \<and>
   probe_len (store_getxattr example_store) ''a'' 1 = 4 \<and>
   probe_len (store_getxattr example_store) ''a'' 2 = 1 \<and>
   chain_getxattr small_consts (store_getxattr example_store) ''a'' 0 = Some (Inr (9, [])) \<and>
   probe_len (store_getxattr example_store) ''c'' 0 = - ENODATA \<and>
   chain_getxattr small_consts (store_getxattr example_store) ''c'' 0 = Some (Inr (- ENODATA, []))"
proof -
  have p: "probe_len (store_getxattr example_store) ''a'' 0 = 4"
    "probe_len (store_getxattr example_store) ''a'' (Suc 0) = 4"
    "probe_len (store_getxattr example_store) ''a'' 2 = 1"
    "probe_len (store_getxattr example_store) ''c'' 0 = - ENODATA"
    by (simp_all add: probe_len_def store_getxattr_def example_store_def physical_key_def
        escaped_def chunk_suffix_def show_int_def show_nat.simps)
  have h1: "int (length ''a'') \<le> CHAIN_XATTR_MAX_NAME_LEN small_consts"
    "int (length ''c'') \<le> CHAIN_XATTR_MAX_NAME_LEN small_consts"
    by (simp_all add: small_consts_def)
  have h2: "int 2 < 2 ^ 31" "int 0 < 2 ^ 31" by simp_all
  have h3: "\<forall>j<2. 0 \<le> probe_len (store_getxattr example_store) ''a'' j \<and>
         (probe_len (store_getxattr example_store) ''a'' j = CHAIN_XATTR_MAX_BLOCK_LEN small_consts \<or>
          probe_len (store_getxattr example_store) ''a'' j = CHAIN_XATTR_SHORT_BLOCK_LEN small_consts)"
    using p by (simp add: small_consts_def less_Suc_eq numeral_2_eq_2)
  have h4: "probe_len (store_getxattr example_store) ''a'' 2 < 0 \<or>
         (probe_len (store_getxattr example_store) ''a'' 2 \<noteq> CHAIN_XATTR_MAX_BLOCK_LEN small_consts \<and>
          probe_len (store_getxattr example_store) ''a'' 2 \<noteq> CHAIN_XATTR_SHORT_BLOCK_LEN small_consts)"
    using p by (simp add: small_consts_def)
  have b4: "(\<Sum>j<2. probe_len (store_getxattr example_store) ''a'' j) +
         (if probe_len (store_getxattr example_store) ''a'' 2 < 0 then 0
          else probe_len (store_getxattr example_store) ''a'' 2) < 2 ^ 31"
    using p by (simp add: numeral_2_eq_2)
  have h5: "\<forall>j<0. 0 \<le> probe_len (store_getxattr example_store) ''c'' j \<and>
         (probe_len (store_getxattr example_store) ''c'' j = CHAIN_XATTR_MAX_BLOCK_LEN small_consts \<or>
          probe_len (store_getxattr example_store) ''c'' j = CHAIN_XATTR_SHORT_BLOCK_LEN small_consts)"
    by simp
  have h6: "probe_len (store_getxattr example_store) ''c'' 0 < 0 \<or>
         (probe_len (store_getxattr example_store) ''c'' 0 \<noteq> CHAIN_XATTR_MAX_BLOCK_LEN small_consts \<and>
          probe_len (store_getxattr example_store) ''c'' 0 \<noteq> CHAIN_XATTR_SHORT_BLOCK_LEN small_consts)"
    using p by (simp add: ENODATA_def)
  have b6: "(\<Sum>j<0. probe_len (store_getxattr example_store) ''c'' j) +
         (if probe_len (store_getxattr example_store) ''c'' 0 < 0 then 0
          else probe_len (store_getxattr example_store) ''c'' 0) < 2 ^ 31"
    using p by (simp add: ENODATA_def)
  have l4: "- (2 ^ 31) \<le> probe_len (store_getxattr example_store) ''a'' 2"
    and l6: "- (2 ^ 31) \<le> probe_len (store_getxattr example_store) ''c'' 0"
    using p by (simp_all add: ENODATA_def)
  from getxattr_len_total [OF h1(1) h2(1) h3 h4 b4 l4]
    getxattr_len_total [OF h1(2) h2(2) h5 h6 b6 l6]
  show ?thesis
    using p h1 by (simp add: numeral_2_eq_2 ENODATA_def)
qed

section \<open>Listing with capacity 0\<close>

text \<open>
  C10.  Called with \<open>len == 0\<close>, \<open>chain_listxattr\<close> and \<open>chain_flistxattr\<close> return twice
  the value that the primitive returns for its call with length 0, stored bytes none; a
  negative error code of the primitive comes back doubled.  The product is that of the
  integers as long as it is in the range of an \<open>int\<close>.
\<close>

theorem chain_listxattr_zero_len:
  assumes "- (2 ^ 30) \<le> fst (listx 0)" and "fst (listx 0) < 2 ^ 30"
  shows "chain_listxattr K listx malloc_ok 0 = Some (Inr (2 * fst (listx 0), [])) \<and>
         chain_flistxattr K listx malloc_ok 0 = Some (Inr (2 * fst (listx 0), []))"
proof -
  have "wrap_int (fst (listx 0) * 2) = fst (listx 0) * 2"
    using assms by (intro wrap_int_id) simp_all
  then show ?thesis by (simp add: chain_listxattr_def chain_flistxattr_def)
qed

theorem chain_listxattr_zero_len_witness:
  "fst (store_listxattr example_store 0) = 20 \<and>
   chain_listxattr small_consts (store_listxattr example_store) (\<lambda>n. True) 0 = Some (Inr (40, [])) \<and>
   fst ((\<lambda>sz. (- ERANGE, [])) (0::nat)) = - 34 \<and>
   chain_listxattr small_consts (\<lambda>sz. (- ERANGE, [])) (\<lambda>n. True) 0 = Some (Inr (- 68, []))"
proof -
  have a: "fst (store_listxattr example_store 0) = 20"
    by (simp add: store_listxattr_def example_store_def key_stream_def)
  have a1: "- (2 ^ 30) \<le> fst (store_listxattr example_store 0)"
    and a2: "fst (store_listxattr example_store 0) < 2 ^ 30"
    by (simp_all only: a) simp_all
  have b: "fst ((\<lambda>sz::nat. (- ERANGE, [])) 0) = - 34" by (simp add: ERANGE_def)
  have b1: "- (2 ^ 30) \<le> fst ((\<lambda>sz::nat. (- ERANGE, []::string)) 0)"
    and b2: "fst ((\<lambda>sz::nat. (- ERANGE, []::string)) 0) < 2 ^ 30"
    by (simp_all add: ERANGE_def)
  from chain_listxattr_zero_len
      [where listx = "store_listxattr example_store" and K = small_consts
         and malloc_ok = "\<lambda>n. True", OF a1 a2]
    chain_listxattr_zero_len
      [where listx = "\<lambda>sz. (- ERANGE, [])" and K = small_consts
         and malloc_ok = "\<lambda>n. True", OF b1 b2] a b
  show ?thesis by (simp add: ERANGE_def)
qed

section \<open>The read with a growing buffer\<close>

lemma chain_getxattr_buf_loop_retry:
  assumes "\<forall>j<k. \<exists>val. chain_getxattr K getx name (sz * 2 ^ j) = Some (Inr (- ERANGE, val))"
    and "chain_getxattr K getx name (sz * 2 ^ k) = Some (Inr (r, val))"
    and "r \<noteq> - ERANGE" and "sz * 2 ^ k < 2 ^ 64"
  shows "chain_getxattr_buf_loop K getx name sz =
           Some (Inr (if r > 0 then (r, Some (take (nat r) val)) else (r, None)))"
  using assms
proof (induction k arbitrary: sz)
  case 0
  then show ?case
    by (subst chain_getxattr_buf_loop.simps) auto
next
  case (Suc k)
  from Suc.prems(1) obtain v0 where v0: "chain_getxattr K getx name sz = Some (Inr (- ERANGE, v0))"
    by fastforce
  have "sz * 2 \<le> sz * 2 ^ Suc k" by simp
  with Suc.prems(4) have small: "sz * 2 < 2 ^ 64" by linarith
  have step: "chain_getxattr_buf_loop K getx name sz = chain_getxattr_buf_loop K getx name (sz * 2)"
    using small by (subst chain_getxattr_buf_loop.simps) (simp add: v0 ERANGE_def)
  have a: "\<forall>j<k. \<exists>val. chain_getxattr K getx name (sz * 2 * 2 ^ j) = Some (Inr (- ERANGE, val))"
  proof (intro allI impI)
    fix j assume "j < k"
    then have "Suc j < Suc k" by simp
    with Suc.prems(1) have "\<exists>val. chain_getxattr K getx name (sz * 2 ^ Suc j) = Some (Inr (- ERANGE, val))"
      by blast
    then show "\<exists>val. chain_getxattr K getx name (sz * 2 * 2 ^ j) = Some (Inr (- ERANGE, val))"
      by (simp add: mult.assoc)
  qed
  have b: "chain_getxattr K getx name (sz * 2 * 2 ^ k) = Some (Inr (r, val))"
    using Suc.prems(2) by (simp add: mult.assoc)
  have c: "sz * 2 * 2 ^ k < 2 ^ 64"
    using Suc.prems(4) by (simp add: mult.assoc)
  show ?case
    unfolding step by (rule Suc.IH [OF a b Suc.prems(3) c])
qed

text \<open>A failure of the primitive at chunk 0 is what the bounded read returns.\<close>

lemma chain_getxattr_first_error:
  assumes "int (length name) \<le> CHAIN_XATTR_MAX_NAME_LEN K" and "0 < sz"
    and "fst (getx (physical_key name 0) sz) < 0"
  shows "chain_getxattr K getx name sz = Some (Inr (fst (getx (physical_key name 0) sz), []))"
proof -
  have key: "get_raw_xattr_name name 0 (name_buf_len K) = Inr (physical_key name 0)"
    using get_raw_key [OF assms(1), of 0] by simp
  show ?thesis
    using assms(2,3)
    by (subst chain_getxattr_def, simp, subst chain_getxattr_loop.simps)
       (simp add: key Let_def split_beta)
qed

text \<open>
  C7, as the claim states it: the attribute \<open>c\<close> is absent from the example object, and
  \<open>chain_getxattr_buf\<close> does not return 0 but the error \<open>-ENODATA\<close> of the primitive.
\<close>

theorem chain_getxattr_buf_absent_counterexample:
  "map_of example_store (physical_key ''c'' 0) = None \<and>
   chain_getxattr_buf small_consts (store_getxattr example_store) ''c'' = Some (Inr (- 61, None))"
  by code_simp

text \<open>
  C7, amended.  \<open>chain_getxattr_buf\<close> starts with 1024 bytes and doubles the size as long
  as the bounded read returns \<open>-ERANGE\<close>.  With the first other result \<open>r\<close> it stops: for
  \<open>r > 0\<close> it returns \<open>r\<close> and the buffer cut to \<open>r\<close> bytes, for \<open>r = 0\<close> (an attribute
  with an empty value) it returns 0 and no buffer, and every other error is returned as it
  is.  An absent attribute is such an error: when chunk 0 is not found, the result is
  \<open>-ENODATA\<close>.
\<close>

theorem chain_getxattr_buf_result:
  assumes "\<forall>j<k. \<exists>val. chain_getxattr K getx name (1024 * 2 ^ j) = Some (Inr (- ERANGE, val))"
    and "chain_getxattr K getx name (1024 * 2 ^ k) = Some (Inr (r, val))"
    and "r \<noteq> - ERANGE" and "(1024::nat) * 2 ^ k < 2 ^ 64"
  shows "chain_getxattr_buf K getx name =
           Some (Inr (if r > 0 then (r, Some (take (nat r) val)) else (r, None))) \<and>
         (int (length name) \<le> CHAIN_XATTR_MAX_NAME_LEN K \<and>
          fst (getx (physical_key name 0) 1024) = - ENODATA \<longrightarrow>
            chain_getxattr_buf K getx name = Some (Inr (- ENODATA, None)))"
proof
  show "chain_getxattr_buf K getx name =
           Some (Inr (if r > 0 then (r, Some (take (nat r) val)) else (r, None)))"
    unfolding chain_getxattr_buf_def by (rule chain_getxattr_buf_loop_retry [OF assms])
  show "int (length name) \<le> CHAIN_XATTR_MAX_NAME_LEN K \<and>
          fst (getx (physical_key name 0) 1024) = - ENODATA \<longrightarrow>
            chain_getxattr_buf K getx name = Some (Inr (- ENODATA, None))"
  proof
    assume a: "int (length name) \<le> CHAIN_XATTR_MAX_NAME_LEN K \<and>
          fst (getx (physical_key name 0) 1024) = - ENODATA"
    then have "chain_getxattr K getx name 1024 = Some (Inr (- ENODATA, []))"
      using chain_getxattr_first_error [of name K 1024 getx] by (simp add: ENODATA_def)
    then show "chain_getxattr_buf K getx name = Some (Inr (- ENODATA, None))"
      unfolding chain_getxattr_buf_def
      by (subst chain_getxattr_buf_loop.simps) (simp add: ENODATA_def ERANGE_def)
  qed
qed

theorem chain_getxattr_buf_result_witness:
  "chain_getxattr small_consts (store_getxattr big_store) ''v'' 1024 = Some (Inr (- ERANGE, [])) \<and>
   chain_getxattr small_consts (store_getxattr big_store) ''v'' 2048 =
     Some (Inr (1025, replicate 1025 CHR ''x'')) \<and>
   chain_getxattr_buf small_consts (store_getxattr big_store) ''v'' =
     Some (Inr (1025, Some (replicate 1025 CHR ''x''))) \<and>
   int (length ''c'') \<le> CHAIN_XATTR_MAX_NAME_LEN small_consts \<and>
   fst (store_getxattr example_store (physical_key ''c'' 0) 1024) = - ENODATA \<and>
   chain_getxattr_buf small_consts (store_getxattr example_store) ''c'' = Some (Inr (- ENODATA, None))"
proof -
  have e1: "chain_getxattr small_consts (store_getxattr big_store) ''v'' 1024 =
      Some (Inr (- ERANGE, []))"
    by (subst chain_getxattr_def, simp, subst chain_getxattr_loop.simps)
       (simp add: get_raw_xattr_name_def name_buf_len_def small_consts_def store_getxattr_def
          big_store_def ERANGE_def ENODATA_def)
  have e2: "chain_getxattr small_consts (store_getxattr big_store) ''v'' 2048 =
      Some (Inr (1025, replicate 1025 CHR ''x''))"
    by (subst chain_getxattr_def, simp, subst chain_getxattr_loop.simps)
       (simp add: get_raw_xattr_name_def name_buf_len_def small_consts_def store_getxattr_def
          big_store_def ERANGE_def ENODATA_def chain_getxattr_probe_def wrap_int_def)
  have h1: "\<forall>j<1. \<exists>val. chain_getxattr small_consts (store_getxattr big_store) ''v'' (1024 * 2 ^ j) =
      Some (Inr (- ERANGE, val))"
    using e1 by simp
  have h2: "chain_getxattr small_consts (store_getxattr big_store) ''v'' (1024 * 2 ^ 1) =
      Some (Inr (1025, replicate 1025 CHR ''x''))"
    using e2 by simp
  have h3: "(1025::int) \<noteq> - ERANGE" by (simp add: ERANGE_def)
  have h4: "(1024::nat) * 2 ^ 1 < 2 ^ 64" by simp
  have c1: "int (length ''c'') \<le> CHAIN_XATTR_MAX_NAME_LEN small_consts"
    by (simp add: small_consts_def)
  have c2: "fst (store_getxattr example_store (physical_key ''c'' 0) 1024) = - ENODATA"
    by (simp add: store_getxattr_def example_store_def physical_key_def escaped_def
        chunk_suffix_def)
  from chain_getxattr_buf_result [OF h1 h2 h3 h4]
  have r1: "chain_getxattr_buf small_consts (store_getxattr big_store) ''v'' =
      Some (Inr (1025, Some (replicate 1025 CHR ''x'')))"
    by simp
  have k1: "chain_getxattr small_consts (store_getxattr example_store) ''c'' (1024 * 2 ^ 0) =
      Some (Inr (- ENODATA, []))"
    using chain_getxattr_first_error [OF c1, of 1024 "store_getxattr example_store"] c2
    by (simp add: ENODATA_def)
  have k2: "- ENODATA \<noteq> - ERANGE" by (simp add: ENODATA_def ERANGE_def)
  have k3: "(1024::nat) * 2 ^ 0 < 2 ^ 64" by simp
  from chain_getxattr_buf_result [of 0, OF _ k1 k2 k3] c1 c2
  have r2: "chain_getxattr_buf small_consts (store_getxattr example_store) ''c'' =
      Some (Inr (- ENODATA, None))"
    by blast
  from e1 e2 r1 c1 c2 r2 show ?thesis by simp
qed

section \<open>Removing a chain\<close>

lemma chain_removexattr_loop_run:
  assumes name: "int (length name) \<le> CHAIN_XATTR_MAX_NAME_LEN K" and n: "int n < 2 ^ 31"
    and ok: "\<forall>j<n. 0 \<le> removal_ret rm name fs j"
    and fail: "removal_ret rm name fs n < 0"
    and i: "i \<le> n"
  shows "chain_removexattr_loop K rm name (int i) (removal_state rm name fs i) =
           Some (Inr (if n = 0 then removal_ret rm name fs 0 else 0),
                 removal_state rm name fs (Suc n))"
  using i
proof (induction "n - i" arbitrary: i)
  case 0
  then have [simp]: "i = n" by simp
  have key: "get_raw_xattr_name name (int n) (name_buf_len K) = Inr (physical_key name (int n))"
    using name n by (rule get_raw_key)
  show ?case
    using fail
    by (subst chain_removexattr_loop.simps)
       (auto simp: key removal_ret_def Let_def split_beta)
next
  case (Suc d)
  then have lt: "i < n" and d: "d = n - Suc i" and le: "Suc i \<le> n" by simp_all
  from lt n have si: "int (Suc i) < 2 ^ 31" by simp
  from lt n have "int i < 2 ^ 31" by simp
  with name have key: "get_raw_xattr_name name (int i) (name_buf_len K) = Inr (physical_key name (int i))"
    by (rule get_raw_key)
  from ok lt have r: "0 \<le> removal_ret rm name fs i" by simp
  have step: "chain_removexattr_loop K rm name (int i) (removal_state rm name fs i) =
      chain_removexattr_loop K rm name (int (Suc i)) (removal_state rm name fs (Suc i))"
    using r wrap_int_Suc [OF si]
    by (subst chain_removexattr_loop.simps)
       (auto simp: key removal_ret_def Let_def split_beta simp del: of_nat_Suc)
  show ?case
    unfolding step by (rule Suc.hyps(1) [OF d le])
qed


text \<open>On a store of attributes a removal only deletes entries.\<close>

lemma store_removexattr_subset: "set (snd (store_removexattr st key)) \<subseteq> set st"
  by (auto simp: store_removexattr_def split: option.splits)

lemma store_removal_subset_aux:
  assumes "chain_removexattr_loop K rm name i st = Some y"
  shows "rm = store_removexattr \<longrightarrow> set (snd y) \<subseteq> set st"
proof (rule chain_removexattr_loop.raw_induct
    [where P = "\<lambda>K rm name i st y. rm = store_removexattr \<longrightarrow> set (snd y) \<subseteq> set st",
     OF _ assms])
  fix loop K rm name i fs y
  assume IH: "\<And>K rm name i fs y. loop K rm name i fs = Some y \<Longrightarrow>
      rm = store_removexattr \<longrightarrow> set (snd y) \<subseteq> set fs"
    and body: "(case get_raw_xattr_name name i (name_buf_len K) of
        Inl e \<Rightarrow> Some (Inl e, fs)
      | Inr raw_name \<Rightarrow>
          let (r, fs') = rm fs raw_name in
          if i = 0 \<and> r < 0 then Some (Inr r, fs')
          else if r \<ge> 0 then loop K rm name (wrap_int (i + 1)) fs'
          else Some (Inr 0, fs')) = Some y"
  show "rm = store_removexattr \<longrightarrow> set (snd y) \<subseteq> set fs"
  proof
    assume rm: "rm = store_removexattr"
    show "set (snd y) \<subseteq> set fs"
    proof (cases "get_raw_xattr_name name i (name_buf_len K)")
      case (Inl e)
      with body show ?thesis by auto
    next
      case (Inr raw_name)
      obtain r fs' where rf: "store_removexattr fs raw_name = (r, fs')"
        by (cases "store_removexattr fs raw_name")
      then have sub: "set fs' \<subseteq> set fs"
        using store_removexattr_subset [of fs raw_name] by simp
      show ?thesis
      proof (cases "0 \<le> r \<and> \<not> (i = 0 \<and> r < 0)")
        case True
        with body Inr rf rm have "loop K store_removexattr name (wrap_int (i + 1)) fs' = Some y"
          by (auto split: if_splits)
        from IH [OF this] have "set (snd y) \<subseteq> set fs'" by simp
        with sub show ?thesis by blast
      next
        case False
        with body Inr rf rm have "snd y = fs'"
          by (auto split: if_splits)
        with sub show ?thesis by simp
      qed
    qed
  qed
qed

lemma map_of_None_subset:
  "set st' \<subseteq> set st \<Longrightarrow> map_of st k = None \<Longrightarrow> map_of st' k = None"
  by (meson map_of_eq_None_iff image_mono subsetD)

lemma store_removal_chunk0_gone:
  assumes name: "int (length name) \<le> CHAIN_XATTR_MAX_NAME_LEN K"
    and res: "chain_removexattr K store_removexattr name st = Some (Inr 0, st')"
  shows "map_of st' (physical_key name 0) = None"
proof -
  have key: "get_raw_xattr_name name 0 (name_buf_len K) = Inr (physical_key name 0)"
    using get_raw_key [OF name, of 0] by simp
  obtain r st1 where rf: "store_removexattr st (physical_key name 0) = (r, st1)"
    by (cases "store_removexattr st (physical_key name 0)")
  have unfold: "chain_removexattr K store_removexattr name st =
      (if r < 0 then Some (Inr r, st1)
       else chain_removexattr_loop K store_removexattr name 1 st1)"
    unfolding chain_removexattr_def
    by (subst chain_removexattr_loop.simps) (auto simp: key rf wrap_int_def)
  with res have eq: "(if r < 0 then Some (Inr r, st1)
      else chain_removexattr_loop K store_removexattr name 1 st1) = Some (Inr 0, st')"
    by simp
  then have r: "\<not> r < 0" by (auto split: if_splits)
  with rf have st1: "map_of st1 (physical_key name 0) = None"
    by (auto simp: store_removexattr_def ENODATA_def map_of_eq_None_iff split: option.splits)
  from eq r have "chain_removexattr_loop K store_removexattr name 1 st1 = Some (Inr 0, st')"
    by simp
  from store_removal_subset_aux [OF this] have "set st' \<subseteq> set st1" by simp
  then show ?thesis using st1 by (rule map_of_None_subset)
qed

lemma getxattr_len_absent:
  assumes name: "int (length name) \<le> CHAIN_XATTR_MAX_NAME_LEN K"
    and "map_of st (physical_key name 0) = None"
  shows "getxattr_len K (store_getxattr st) name = Some (Inr (- ENODATA))"
proof -
  have key: "get_raw_xattr_name name 0 (name_buf_len K) = Inr (physical_key name 0)"
    using get_raw_key [OF name, of 0] by simp
  show ?thesis
    unfolding getxattr_len_def
    by (subst getxattr_len_loop.simps) (simp add: key store_getxattr_def assms(2) ENODATA_def)
qed


lemma store_removal_absent:
  assumes name: "int (length name) \<le> CHAIN_XATTR_MAX_NAME_LEN K"
    and "map_of st (physical_key name 0) = None"
  shows "chain_removexattr K store_removexattr name st = Some (Inr (- ENODATA), st)"
proof -
  have key: "get_raw_xattr_name name 0 (name_buf_len K) = Inr (physical_key name 0)"
    using get_raw_key [OF name, of 0] by simp
  show ?thesis
    unfolding chain_removexattr_def
    by (subst chain_removexattr_loop.simps)
       (simp add: key store_removexattr_def assms(2) ENODATA_def)
qed

text \<open>
  C6.  \<open>chain_removexattr\<close> and \<open>chain_fremovexattr\<close> call the primitive on the keys of the
  chunks 0, 1, 2, \<dots> in this order and stop at the first call that fails, chunk \<open>n\<close>: the
  object is left in the state after these calls.  When the call for chunk 0 fails, its
  error is the result; a failure at a later chunk gives the result 0.  On a store of
  attributes, removing a name whose chunk 0 is not there gives \<open>-ENODATA\<close>, and after a
  removal that returned 0 chunk 0 is gone and the length-only probe gives \<open>-ENODATA\<close>.
\<close>

theorem chain_removexattr_result:
  assumes "int (length name) \<le> CHAIN_XATTR_MAX_NAME_LEN K" and "int n < 2 ^ 31"
    and "\<forall>j<n. 0 \<le> removal_ret rm name fs j"
    and "removal_ret rm name fs n < 0"
  shows "chain_removexattr K rm name fs =
           Some (Inr (if n = 0 then removal_ret rm name fs 0 else 0),
                 removal_state rm name fs (Suc n)) \<and>
         chain_fremovexattr K rm name fs = chain_removexattr K rm name fs \<and>
         (\<forall>st. map_of st (physical_key name 0) = None \<longrightarrow>
            chain_removexattr K store_removexattr name st = Some (Inr (- ENODATA), st)) \<and>
         (\<forall>st st'. chain_removexattr K store_removexattr name st = Some (Inr 0, st') \<longrightarrow>
            map_of st' (physical_key name 0) = None \<and>
            getxattr_len K (store_getxattr st') name = Some (Inr (- ENODATA)))"
proof (intro conjI allI impI)
  show "chain_removexattr K rm name fs =
           Some (Inr (if n = 0 then removal_ret rm name fs 0 else 0),
                 removal_state rm name fs (Suc n))"
    using chain_removexattr_loop_run [OF assms, of 0] by (simp add: chain_removexattr_def)
  show "chain_fremovexattr K rm name fs = chain_removexattr K rm name fs"
    by (simp add: chain_fremovexattr_def)
next
  fix st :: xattr_store
  assume "map_of st (physical_key name 0) = None"
  with assms(1) show "chain_removexattr K store_removexattr name st = Some (Inr (- ENODATA), st)"
    by (rule store_removal_absent)
next
  fix st st' :: xattr_store
  assume "chain_removexattr K store_removexattr name st = Some (Inr 0, st')"
  with assms(1) show gone: "map_of st' (physical_key name 0) = None"
    by (rule store_removal_chunk0_gone)
  with assms(1) show "getxattr_len K (store_getxattr st') name = Some (Inr (- ENODATA))"
    by (rule getxattr_len_absent)
qed

theorem chain_removexattr_result_witness:
  "int (length ''a'') \<le> CHAIN_XATTR_MAX_NAME_LEN small_consts \<and>
   removal_ret store_removexattr ''a'' example_store 0 = 0 \<and>
   removal_ret store_removexattr ''a'' example_store 1 = 0 \<and>
   removal_ret store_removexattr ''a'' example_store 2 = 0 \<and>
   removal_ret store_removexattr ''a'' example_store 3 = - ENODATA \<and>
   chain_removexattr small_consts store_removexattr ''a'' example_store =
     Some (Inr 0, [(''b@@'', ''xy''), (''b@@@1'', ''z'')]) \<and>
   getxattr_len small_consts (store_getxattr [(''b@@'', ''xy''), (''b@@@1'', ''z'')]) ''a'' =
     Some (Inr (- ENODATA)) \<and>
   map_of example_store (physical_key ''c'' 0) = None \<and>
   chain_removexattr small_consts store_removexattr ''c'' example_store =
     Some (Inr (- ENODATA), example_store)"
proof -
  have keys: "physical_key ''a'' 0 = ''a''" "physical_key ''a'' 1 = ''a@1''"
    "physical_key ''a'' 2 = ''a@2''" "physical_key ''a'' 3 = ''a@3''"
    "physical_key ''c'' 0 = ''c''"
    by (simp_all add: physical_key_def escaped_def chunk_suffix_def show_int_def show_nat.simps)
  have s1: "removal_state store_removexattr ''a'' example_store (Suc 0) =
      [(''a@1'', ''efgh''), (''a@2'', ''i''), (''b@@'', ''xy''), (''b@@@1'', ''z'')]"
    by (simp add: keys store_removexattr_def example_store_def)
  have s2: "removal_state store_removexattr ''a'' example_store (Suc (Suc 0)) =
      [(''a@2'', ''i''), (''b@@'', ''xy''), (''b@@@1'', ''z'')]"
    by (simp only: removal_state.simps(2) [of _ _ _ "Suc 0"] s1)
       (simp add: keys store_removexattr_def)
  have s3: "removal_state store_removexattr ''a'' example_store (Suc (Suc (Suc 0))) =
      [(''b@@'', ''xy''), (''b@@@1'', ''z'')]"
    by (simp only: removal_state.simps(2) [of _ _ _ "Suc (Suc 0)"] s2)
       (simp add: keys store_removexattr_def)
  have s4: "removal_state store_removexattr ''a'' example_store (Suc (Suc (Suc (Suc 0)))) =
      [(''b@@'', ''xy''), (''b@@@1'', ''z'')]"
    by (simp only: removal_state.simps(2) [of _ _ _ "Suc (Suc (Suc 0))"] s3)
       (simp add: keys [unfolded numeral_3_eq_3] store_removexattr_def)
  have r: "removal_ret store_removexattr ''a'' example_store 0 = 0"
    "removal_ret store_removexattr ''a'' example_store (Suc 0) = 0"
    "removal_ret store_removexattr ''a'' example_store (Suc (Suc 0)) = 0"
    "removal_ret store_removexattr ''a'' example_store (Suc (Suc (Suc 0))) = - ENODATA"
    unfolding removal_ret_def s1 s2 s3
    by (simp_all add: keys [unfolded numeral_3_eq_3] store_removexattr_def example_store_def)
  have h1: "int (length ''a'') \<le> CHAIN_XATTR_MAX_NAME_LEN small_consts"
    by (simp add: small_consts_def)
  have h2: "int (Suc (Suc (Suc 0))) < 2 ^ 31" by simp
  have h3: "\<forall>j<Suc (Suc (Suc 0)). 0 \<le> removal_ret store_removexattr ''a'' example_store j"
    using r by (simp add: less_Suc_eq)
  have h4: "removal_ret store_removexattr ''a'' example_store (Suc (Suc (Suc 0))) < 0"
    using r by (simp add: ENODATA_def)
  have c: "map_of example_store (physical_key ''c'' 0) = None"
    by (simp add: keys example_store_def)
  note res = chain_removexattr_result [OF h1 h2 h3 h4]
  from res [unfolded s4]
  have a: "chain_removexattr small_consts store_removexattr ''a'' example_store =
     Some (Inr 0, [(''b@@'', ''xy''), (''b@@@1'', ''z'')])"
    by simp
  from res a have b: "getxattr_len small_consts (store_getxattr [(''b@@'', ''xy''), (''b@@@1'', ''z'')]) ''a'' =
     Some (Inr (- ENODATA))"
    by blast
  have h1c: "int (length ''c'') \<le> CHAIN_XATTR_MAX_NAME_LEN small_consts"
    by (simp add: small_consts_def)
  have d: "chain_removexattr small_consts store_removexattr ''c'' example_store =
     Some (Inr (- ENODATA), example_store)"
    using store_removal_absent [OF h1c c] .
  from h1 r a b c d show ?thesis
    unfolding numeral_2_eq_2 numeral_3_eq_3 One_nat_def by blast
qed

section \<open>The bounded read on a store of attributes\<close>

lemma size_t_sub:
  assumes "r \<le> sz" and "sz < 2 ^ 64"
  shows "nat ((int sz - int r) mod 2 ^ 64) = sz - r"
proof -
  from assms(1) have eq: "int sz - int r = int (sz - r)" by (simp add: of_nat_diff)
  from assms(2) have "sz - r < 2 ^ 64" by (rule less_imp_diff_less)
  then have "int (sz - r) < int (2 ^ 64)" by (simp only: of_nat_less_iff)
  then have lt: "int (sz - r) < 2 ^ 64" by simp
  have "int (sz - r) mod 2 ^ 64 = int (sz - r)"
    using lt by (intro mod_pos_pos_trivial) simp_all
  then show ?thesis unfolding eq by simp
qed

lemma chain_getxattr_probe_absent:
  assumes "int (length name) \<le> CHAIN_XATTR_MAX_NAME_LEN K" and "int i < 2 ^ 31"
    and "map_of st (physical_key name (int i)) = None"
  shows "chain_getxattr_probe K (store_getxattr st) name (int i) pos chunk_size val = Inr (pos, val)"
  using assms(3)
  by (simp add: chain_getxattr_probe_def get_raw_key [OF assms(1,2)] store_getxattr_def
      ENODATA_def)

lemma chain_getxattr_probe_present:
  assumes "int (length name) \<le> CHAIN_XATTR_MAX_NAME_LEN K" and "int i < 2 ^ 31"
    and "map_of st (physical_key name (int i)) = Some v"
  shows "chain_getxattr_probe K (store_getxattr st) name (int i) pos chunk_size val =
           (if block_len K (int chunk_size) \<and> v \<noteq> [] then Inr (- ERANGE, val) else Inr (pos, val))"
  using assms(3)
  by (simp add: chain_getxattr_probe_def get_raw_key [OF assms(1,2)] store_getxattr_def
      block_len_def)

lemma chain_getxattr_probe_eq:
  assumes "int (length name) \<le> CHAIN_XATTR_MAX_NAME_LEN K" and "int i < 2 ^ 31"
  shows "chain_getxattr_probe K getx name (int i) pos chunk_size val =
           (if block_len K (int chunk_size) \<and> 0 < probe_len getx name i
            then Inr (- ERANGE, val) else Inr (pos, val))"
  by (simp add: chain_getxattr_probe_def get_raw_key [OF assms] block_len_def probe_len_def)

lemma probe_len_stored:
  assumes "chain_stored st name chunks" and "k \<le> length chunks"
  shows "probe_len (store_getxattr st) name k =
           (if k < length chunks then int (length (chunks ! k)) else - ENODATA)"
proof (cases "k < length chunks")
  case True
  with assms(1) have "map_of st (physical_key name (int k)) = Some (chunks ! k)"
    by (simp add: chain_stored_def)
  with True show ?thesis by (simp add: probe_len_def store_getxattr_def)
next
  case False
  with assms(2) have "k = length chunks" by simp
  with assms(1) have "map_of st (physical_key name (int k)) = None"
    by (simp add: chain_stored_def)
  with False show ?thesis by (simp add: probe_len_def store_getxattr_def)
qed

lemma chain_getxattr_loop_absent:
  assumes "int (length name) \<le> CHAIN_XATTR_MAX_NAME_LEN K" and "int i < 2 ^ 31"
    and "map_of st (physical_key name (int i)) = None" and "0 < i"
  shows "chain_getxattr_loop K (store_getxattr st) name (int i) pos sz val = Some (Inr (pos, val))"
  using assms(3,4)
  by (subst chain_getxattr_loop.simps)
     (simp add: get_raw_key [OF assms(1,2)] store_getxattr_def)

lemma chain_getxattr_loop_present:
  assumes "int (length name) \<le> CHAIN_XATTR_MAX_NAME_LEN K" and "int i < 2 ^ 31"
    and "map_of st (physical_key name (int i)) = Some v"
    and "0 < sz" and "length v \<le> sz" and "sz < 2 ^ 64"
    and "int (Suc i) < 2 ^ 31" and "0 \<le> pos" and "pos + int (length v) < 2 ^ 31"
  shows "chain_getxattr_loop K (store_getxattr st) name (int i) pos sz val =
           (if sz - length v \<noteq> 0 \<and> block_len K (int (length v))
            then chain_getxattr_loop K (store_getxattr st) name (int (Suc i))
                   (pos + int (length v)) (sz - length v) (val @ v)
            else Some (chain_getxattr_probe K (store_getxattr st) name (int (Suc i))
                   (pos + int (length v)) sz (val @ v)))"
proof -
  have sub: "nat ((int sz - int (length v)) mod 2 ^ 64) = sz - length v"
    using assms(5,6) by (rule size_t_sub)
  have sub': "nat ((int sz - int (length v)) mod 18446744073709551616) = sz - length v"
    using sub by simp
  have pos: "(0 < (int sz - int (length v)) mod 18446744073709551616) = (sz - length v \<noteq> 0)"
    using sub' by (metis nat_0_iff neq0_conv not_le zero_less_nat_eq)
  have nz: "int (length v) \<noteq> - ENODATA" by (simp add: ENODATA_def)
  have get: "store_getxattr st (physical_key name (int i)) sz = (int (length v), v)"
    using assms(3,4,5) by (simp add: store_getxattr_def)
  have i1: "wrap_int (int i + 1) = int (Suc i)" using assms(7) by (rule wrap_int_Suc)
  have w: "wrap_int (pos + int (length v)) = pos + int (length v)"
    using assms(8,9) by (intro wrap_int_nonneg) simp_all
  show ?thesis
  proof (cases "v = []")
    case True
    then show ?thesis
      by (subst chain_getxattr_loop.simps)
         (auto simp: get_raw_key [OF assms(1,2)] get Let_def block_len_def i1
            ENODATA_def simp del: of_nat_Suc)
  next
    case False
    then show ?thesis
      using nz
      by (subst chain_getxattr_loop.simps)
         (simp add: get_raw_key [OF assms(1,2)] get Let_def block_len_def [symmetric] i1 w
            sub' pos del: of_nat_Suc)
  qed
qed


lemma concat_take_Suc:
  "i < length chunks \<Longrightarrow> concat (take (Suc i) chunks) = concat (take i chunks) @ chunks ! i"
  by (simp add: take_Suc_conv_app_nth)

lemma concat_take_drop: "concat chunks = concat (take i chunks) @ concat (drop i chunks)"
  by (metis append_take_drop_id concat_append)

lemma chain_getxattr_loop_complete:
  assumes name: "int (length name) \<le> CHAIN_XATTR_MAX_NAME_LEN K"
    and len: "int (length chunks) < 2 ^ 31"
    and stored: "chain_stored st name chunks"
    and full: "\<forall>j. Suc j < length chunks \<longrightarrow> block_len K (int (length (chunks ! j)))"
    and cap: "length (concat chunks) \<le> c" and c: "c < 2 ^ 64"
    and L31: "int (length (concat chunks)) < 2 ^ 31"
    and i: "i < length chunks" and room: "length (concat (take i chunks)) < c"
  shows "chain_getxattr_loop K (store_getxattr st) name (int i)
           (int (length (concat (take i chunks)))) (c - length (concat (take i chunks)))
           (concat (take i chunks)) =
         Some (Inr (int (length (concat chunks)), concat chunks))"
  using i room
proof (induction "length chunks - i" arbitrary: i)
  case 0
  then show ?case by simp
next
  case (Suc d)
  define P where "P = length (concat (take i chunks))"
  define v where "v = chunks ! i"
  define P' where "P' = length (concat (take (Suc i) chunks))"
  have i: "i < length chunks" by (rule Suc.prems(1))
  have P': "P' = P + length v"
    unfolding P'_def P_def v_def by (simp add: concat_take_Suc [OF i])
  have val': "concat (take i chunks) @ v = concat (take (Suc i) chunks)"
    unfolding v_def by (simp add: concat_take_Suc [OF i])
  have "length (concat chunks) = P' + length (concat (drop (Suc i) chunks))"
    unfolding P'_def using concat_take_drop [of chunks "Suc i"] by (metis length_append)
  then have P'L: "P' \<le> length (concat chunks)" by simp
  with cap have P'c: "P' \<le> c" by simp
  from Suc.prems(2) have Pc: "P < c" by (simp add: P_def)
  have ii: "int i < 2 ^ 31" using i len by simp
  have si: "int (Suc i) < 2 ^ 31" using i len by simp
  have key: "map_of st (physical_key name (int i)) = Some v"
    using stored i by (simp add: chain_stored_def v_def)
  have sz: "0 < c - P" "length v \<le> c - P" "c - P < 2 ^ 64"
    using Pc P'c P' c by simp_all
  have subs: "c - P - length v = c - P'" using P' by simp
  have pos': "int P + int (length v) = int P'" using P' by simp
  have P0: "0 \<le> int P" by simp
  have P31: "int P + int (length v) < 2 ^ 31" using P'L L31 pos' by linarith
  have step: "chain_getxattr_loop K (store_getxattr st) name (int i) (int P) (c - P)
           (concat (take i chunks)) =
       (if c - P' \<noteq> 0 \<and> block_len K (int (length v))
        then chain_getxattr_loop K (store_getxattr st) name (int (Suc i)) (int P') (c - P')
               (concat (take (Suc i) chunks))
        else Some (chain_getxattr_probe K (store_getxattr st) name (int (Suc i)) (int P') (c - P)
               (concat (take (Suc i) chunks))))"
    using chain_getxattr_loop_present
      [OF name ii key sz si P0 P31, of "concat (take i chunks)"]
    by (simp only: subs pos' val')
  have goal: "(if c - P' \<noteq> 0 \<and> block_len K (int (length v))
        then chain_getxattr_loop K (store_getxattr st) name (int (Suc i)) (int P') (c - P')
               (concat (take (Suc i) chunks))
        else Some (chain_getxattr_probe K (store_getxattr st) name (int (Suc i)) (int P') (c - P)
               (concat (take (Suc i) chunks)))) =
      Some (Inr (int (length (concat chunks)), concat chunks))"
  proof (cases "Suc i < length chunks")
    case True
    show ?thesis
    proof (cases "c - P' \<noteq> 0")
      case nz: True
      from True full have "block_len K (int (length v))"
        by (simp add: v_def)
      moreover have "chain_getxattr_loop K (store_getxattr st) name (int (Suc i)) (int P') (c - P')
               (concat (take (Suc i) chunks)) = Some (Inr (int (length (concat chunks)), concat chunks))"
        unfolding P'_def
      proof (rule Suc.hyps(1))
        show "d = length chunks - Suc i" using Suc.hyps(2) by simp
        show "Suc i < length chunks" by (rule True)
        show "length (concat (take (Suc i) chunks)) < c" using nz P'c by (simp add: P'_def)
      qed
      ultimately show ?thesis using nz by simp
    next
      case z: False
      with P'c have "P' = c" by simp
      with P'L cap have L: "length (concat chunks) = P'" by simp
      have "length (concat chunks) = P' + length (concat (drop (Suc i) chunks))"
        unfolding P'_def using concat_take_drop [of chunks "Suc i"] by (metis length_append)
      with L have rest: "concat (drop (Suc i) chunks) = []" by simp
      have "drop (Suc i) chunks = chunks ! Suc i # drop (Suc (Suc i)) chunks"
        using True by (simp add: Cons_nth_drop_Suc)
      with rest have nxt: "chunks ! Suc i = []" by simp
      have key': "map_of st (physical_key name (int (Suc i))) = Some []"
        using stored True nxt unfolding chain_stored_def by (metis (no_types))
      have all: "concat (take (Suc i) chunks) = concat chunks"
        using concat_take_drop [of chunks "Suc i"] rest by simp
      have "chain_getxattr_probe K (store_getxattr st) name (int (Suc i)) (int P') (c - P)
               (concat (take (Suc i) chunks)) = Inr (int P', concat (take (Suc i) chunks))"
        using chain_getxattr_probe_present [OF name si key'] by simp
      then show ?thesis using z L all by simp
    qed
  next
    case False
    with i have last: "Suc i = length chunks" by simp
    then have all: "concat (take (Suc i) chunks) = concat chunks" by simp
    then have L: "int P' = int (length (concat chunks))" by (simp add: P'_def)
    have absent: "map_of st (physical_key name (int (Suc i))) = None"
      using stored last unfolding chain_stored_def by (metis (no_types))
    have a: "chain_getxattr_loop K (store_getxattr st) name (int (Suc i)) (int P') (c - P')
               (concat (take (Suc i) chunks)) = Some (Inr (int P', concat (take (Suc i) chunks)))"
      by (rule chain_getxattr_loop_absent [OF name si absent]) simp
    have b: "chain_getxattr_probe K (store_getxattr st) name (int (Suc i)) (int P') (c - P)
               (concat (take (Suc i) chunks)) = Inr (int P', concat (take (Suc i) chunks))"
      by (rule chain_getxattr_probe_absent [OF name si absent])
    show ?thesis by (simp only: a b if_cancel) (simp only: all L)
  qed
  show ?case
    using step goal by (simp only: P_def)
qed


lemma concat_take_mono:
  "j \<le> k \<Longrightarrow> length (concat (take j xs)) \<le> length (concat (take k xs))"
proof -
  assume "j \<le> k"
  then have "take k xs = take j xs @ take (k - j) (drop j xs)"
    using take_add [of j "k - j" xs] by simp
  then show ?thesis by (metis concat_append le_add1 length_append)
qed

lemma block_len_pos:
  "0 < CHAIN_XATTR_MAX_BLOCK_LEN K \<Longrightarrow> 0 < CHAIN_XATTR_SHORT_BLOCK_LEN K \<Longrightarrow>
   block_len K (int (length v)) \<Longrightarrow> 0 < length v"
  by (auto simp: block_len_def)

lemma chain_getxattr_loop_truncated:
  assumes name: "int (length name) \<le> CHAIN_XATTR_MAX_NAME_LEN K"
    and len: "int (length chunks) < 2 ^ 31"
    and stored: "chain_stored st name chunks"
    and k: "k \<le> length chunks"
    and full: "\<forall>j<k. block_len K (int (length (chunks ! j)))"
    and mx: "0 < CHAIN_XATTR_MAX_BLOCK_LEN K" and sh: "0 < CHAIN_XATTR_SHORT_BLOCK_LEN K"
    and c: "c = length (concat (take k chunks))" and c31: "int c < 2 ^ 31"
    and i: "i < k"
  shows "chain_getxattr_loop K (store_getxattr st) name (int i)
           (int (length (concat (take i chunks)))) (c - length (concat (take i chunks)))
           (concat (take i chunks)) =
         Some (Inr (if 0 < probe_len (store_getxattr st) name k then - ERANGE else int c,
                    concat (take k chunks)))"
  using i
proof (induction "k - i" arbitrary: i)
  case 0
  then show ?case by simp
next
  case (Suc d)
  define P where "P = length (concat (take i chunks))"
  define v where "v = chunks ! i"
  define P' where "P' = length (concat (take (Suc i) chunks))"
  have ik: "i < k" by (rule Suc.prems)
  with k have i: "i < length chunks" by simp
  have P': "P' = P + length v"
    unfolding P'_def P_def v_def by (simp add: concat_take_Suc [OF i])
  have val': "concat (take i chunks) @ v = concat (take (Suc i) chunks)"
    unfolding v_def by (simp add: concat_take_Suc [OF i])
  have blk: "block_len K (int (length v))" using full ik by (simp add: v_def)
  then have vpos: "0 < length v" using mx sh by (rule block_len_pos [rotated 2])
  have P'c: "P' \<le> c"
    unfolding P'_def c using ik by (intro concat_take_mono) simp
  have c64: "c < 2 ^ 64"
  proof -
    from c31 have "int c < 2 ^ 64" by simp
    then have "int c < int (2 ^ 64)" by simp
    then show ?thesis by (simp only: of_nat_less_iff)
  qed
  have ii: "int i < 2 ^ 31" using i len by simp
  have si: "int (Suc i) < 2 ^ 31" using i len by simp
  have key: "map_of st (physical_key name (int i)) = Some v"
    using stored i by (simp add: chain_stored_def v_def)
  have sz: "0 < c - P" "length v \<le> c - P" "c - P < 2 ^ 64"
    using vpos P'c P' c64 by (simp_all del: length_greater_0_conv)
  have subs: "c - P - length v = c - P'" using P' by simp
  have pos': "int P + int (length v) = int P'" using P' by simp
  have P0: "0 \<le> int P" by simp
  have P31: "int P + int (length v) < 2 ^ 31" using P'c c31 pos' by linarith
  have step: "chain_getxattr_loop K (store_getxattr st) name (int i) (int P) (c - P)
           (concat (take i chunks)) =
       (if c - P' \<noteq> 0 \<and> block_len K (int (length v))
        then chain_getxattr_loop K (store_getxattr st) name (int (Suc i)) (int P') (c - P')
               (concat (take (Suc i) chunks))
        else Some (chain_getxattr_probe K (store_getxattr st) name (int (Suc i)) (int P') (c - P)
               (concat (take (Suc i) chunks))))"
    using chain_getxattr_loop_present
      [OF name ii key sz si P0 P31, of "concat (take i chunks)"]
    by (simp only: subs pos' val')
  have goal: "(if c - P' \<noteq> 0 \<and> block_len K (int (length v))
        then chain_getxattr_loop K (store_getxattr st) name (int (Suc i)) (int P') (c - P')
               (concat (take (Suc i) chunks))
        else Some (chain_getxattr_probe K (store_getxattr st) name (int (Suc i)) (int P') (c - P)
               (concat (take (Suc i) chunks)))) =
      Some (Inr (if 0 < probe_len (store_getxattr st) name k then - ERANGE else int c,
                 concat (take k chunks)))"
  proof (cases "Suc i < k")
    case True
    with k have s: "Suc i < length chunks" by simp
    have "block_len K (int (length (chunks ! Suc i)))" using full True by simp
    then have "0 < length (chunks ! Suc i)" using mx sh by (rule block_len_pos [rotated 2])
    moreover have "length (concat (take (Suc (Suc i)) chunks)) = P' + length (chunks ! Suc i)"
      unfolding P'_def by (simp add: concat_take_Suc [OF s])
    moreover have "length (concat (take (Suc (Suc i)) chunks)) \<le> c"
      unfolding c using True by (intro concat_take_mono) simp
    ultimately have nz: "c - P' \<noteq> 0" by linarith
    have "chain_getxattr_loop K (store_getxattr st) name (int (Suc i)) (int P') (c - P')
               (concat (take (Suc i) chunks)) =
          Some (Inr (if 0 < probe_len (store_getxattr st) name k then - ERANGE else int c,
                     concat (take k chunks)))"
      unfolding P'_def
    proof (rule Suc.hyps(1))
      show "d = k - Suc i" using Suc.hyps(2) by simp
      show "Suc i < k" by (rule True)
    qed
    then show ?thesis using nz blk by simp
  next
    case False
    with ik have last: "Suc i = k" by simp
    then have P'eq: "P' = c" by (simp add: P'_def c)
    with P' have cs: "c - P = length v" by simp
    have "chain_getxattr_probe K (store_getxattr st) name (int (Suc i)) (int P') (c - P)
               (concat (take (Suc i) chunks)) =
          (if 0 < probe_len (store_getxattr st) name (Suc i) then Inr (- ERANGE, concat (take (Suc i) chunks))
           else Inr (int P', concat (take (Suc i) chunks)))"
      using chain_getxattr_probe_eq [OF name si, of "store_getxattr st" "int P'" "c - P"] blk cs
      by simp
    then show ?thesis using P'eq last by auto
  qed
  show ?case
    using step goal by (simp only: P_def)
qed

lemma example_chain_a: "chain_stored example_store ''a'' [''abcd'', ''efgh'', ''i'']"
proof -
  have keys: "physical_key ''a'' 0 = ''a''" "physical_key ''a'' 1 = ''a@1''"
    "physical_key ''a'' 2 = ''a@2''" "physical_key ''a'' 3 = ''a@3''"
    by (simp_all add: physical_key_def escaped_def chunk_suffix_def show_int_def show_nat.simps)
  have "\<forall>j<Suc (Suc (Suc 0)). map_of example_store (physical_key ''a'' (int j)) =
      Some ([''abcd'', ''efgh'', ''i''] ! j)"
    by (simp add: less_Suc_eq keys example_store_def)
  moreover have "map_of example_store (physical_key ''a'' (int (Suc (Suc (Suc 0))))) = None"
    by (simp add: keys example_store_def)
  ultimately show ?thesis by (simp add: chain_stored_def)
qed


text \<open>
  C2.  The store holds the chain of an attribute: its chunks under the keys of the
  indices 0, 1, \<dots>, every chunk but the last of one of the two block sizes, and nothing
  under the next key.  The total length \<open>L\<close> of the chunks is positive.  Then with every
  capacity \<open>c \<ge> L\<close>, aligned to a block size or not, the bounded read returns \<open>L\<close>, and
  the first \<open>L\<close> bytes of the buffer are the chunks in the order of their indices.
  \<open>L\<close> is in the range of an \<open>int\<close>, the type of the result.
\<close>

theorem chain_getxattr_complete:
  assumes "int (length name) \<le> CHAIN_XATTR_MAX_NAME_LEN K"
    and "int (length chunks) < 2 ^ 31"
    and "chain_stored st name chunks"
    and "\<forall>j. Suc j < length chunks \<longrightarrow> block_len K (int (length (chunks ! j)))"
    and "0 < length (concat chunks)" and "int (length (concat chunks)) < 2 ^ 31"
    and "length (concat chunks) \<le> c" and "c < 2 ^ 64"
  shows "chain_getxattr K (store_getxattr st) name c =
           Some (Inr (int (length (concat chunks)), concat chunks)) \<and>
         chain_fgetxattr K (store_getxattr st) name c =
           Some (Inr (int (length (concat chunks)), concat chunks))"
proof -
  from assms(5) have ne: "0 < length chunks" by (cases chunks) auto
  from assms(5,7) have c: "0 < c" by linarith
  then have room: "length (concat (take 0 chunks)) < c" by simp
  have "chain_getxattr_loop K (store_getxattr st) name 0 0 c [] =
      Some (Inr (int (length (concat chunks)), concat chunks))"
    using chain_getxattr_loop_complete [OF assms(1,2,3,4,7,8,6) ne room] by simp
  then show ?thesis using c by (simp add: chain_getxattr_def chain_fgetxattr_def)
qed

theorem chain_getxattr_complete_witness:
  "int (length ''a'') \<le> CHAIN_XATTR_MAX_NAME_LEN small_consts \<and>
   chain_stored example_store ''a'' [''abcd'', ''efgh'', ''i''] \<and>
   block_len small_consts (int (length ''abcd'')) \<and>
   block_len small_consts (int (length ''efgh'')) \<and>
   length (concat [''abcd'', ''efgh'', ''i'']) \<le> 10 \<and>
   chain_getxattr small_consts (store_getxattr example_store) ''a'' 10 =
     Some (Inr (9, ''abcdefghi''))"
proof -
  have h1: "int (length ''a'') \<le> CHAIN_XATTR_MAX_NAME_LEN small_consts"
    by (simp add: small_consts_def)
  have h2: "int (length [''abcd'', ''efgh'', ''i'']) < 2 ^ 31" by simp
  have b: "block_len small_consts (int (length ''abcd''))"
    "block_len small_consts (int (length ''efgh''))"
    by (simp_all add: block_len_def small_consts_def)
  have h4: "\<forall>j. Suc j < length [''abcd'', ''efgh'', ''i''] \<longrightarrow>
      block_len small_consts (int (length ([''abcd'', ''efgh'', ''i''] ! j)))"
    using b by (simp add: less_Suc_eq)
  have h5: "0 < length (concat [''abcd'', ''efgh'', ''i''])" by simp
  have h5': "int (length (concat [''abcd'', ''efgh'', ''i''])) < 2 ^ 31" by simp
  have h6: "length (concat [''abcd'', ''efgh'', ''i'']) \<le> 10" by simp
  have h7: "(10::nat) < 2 ^ 64" by simp
  from chain_getxattr_complete [OF h1 h2 example_chain_a h4 h5 h5' h6 h7]
  have "chain_getxattr small_consts (store_getxattr example_store) ''a'' 10 =
     Some (Inr (9, ''abcdefghi''))"
    by simp
  with h1 example_chain_a b h6 show ?thesis by blast
qed

text \<open>
  C1.  The store holds the chain of an attribute, and the capacity \<open>c\<close> is the total
  length of its first \<open>k > 0\<close> chunks, each of one of the two (positive) block sizes, so
  that the read uses up the capacity at the end of chunk \<open>k - 1\<close>.  Then the bounded read
  makes the zero-length probe of chunk \<open>k\<close>, and that probe decides the result: when it
  reports a positive length, the result is \<open>-ERANGE\<close>, and otherwise the count \<open>c\<close> of
  the bytes stored.  The probe reports the length of chunk \<open>k\<close> when the store holds it,
  so for an attribute that goes on with a chunk that is not empty the result is never
  the short count.  The capacity is in the range of an \<open>int\<close>.
\<close>

theorem chain_getxattr_truncated:
  assumes "int (length name) \<le> CHAIN_XATTR_MAX_NAME_LEN K"
    and "int (length chunks) < 2 ^ 31"
    and "chain_stored st name chunks"
    and "0 < k" and "k \<le> length chunks"
    and "\<forall>j<k. block_len K (int (length (chunks ! j)))"
    and "0 < CHAIN_XATTR_MAX_BLOCK_LEN K" and "0 < CHAIN_XATTR_SHORT_BLOCK_LEN K"
    and "c = length (concat (take k chunks))" and "int c < 2 ^ 31"
  shows "chain_getxattr K (store_getxattr st) name c =
           Some (Inr (if 0 < probe_len (store_getxattr st) name k then - ERANGE else int c,
                      concat (take k chunks))) \<and>
         chain_fgetxattr K (store_getxattr st) name c =
           Some (Inr (if 0 < probe_len (store_getxattr st) name k then - ERANGE else int c,
                      concat (take k chunks))) \<and>
         probe_len (store_getxattr st) name k =
           (if k < length chunks then int (length (chunks ! k)) else - ENODATA)"
proof -
  have "block_len K (int (length (chunks ! 0)))" using assms(4,6) by simp
  then have "0 < length (chunks ! 0)" using assms(7,8) by (rule block_len_pos [rotated 2])
  moreover have "length (concat (take (Suc 0) chunks)) \<le> c"
    unfolding assms(9) using assms(4) by (intro concat_take_mono) simp
  moreover have "length (concat (take (Suc 0) chunks)) = length (chunks ! 0)"
  proof -
    from assms(4,5) have "0 < length chunks" by linarith
    then show ?thesis using concat_take_Suc [of 0 chunks] by simp
  qed
  ultimately have c: "0 < c" by linarith
  have "chain_getxattr_loop K (store_getxattr st) name 0 0 c [] =
      Some (Inr (if 0 < probe_len (store_getxattr st) name k then - ERANGE else int c,
                 concat (take k chunks)))"
    using chain_getxattr_loop_truncated [OF assms(1,2,3,5,6,7,8,9,10) assms(4)] by simp
  then show ?thesis
    using c probe_len_stored [OF assms(3,5)]
    by (simp add: chain_getxattr_def chain_fgetxattr_def)
qed

theorem chain_getxattr_truncated_witness:
  "chain_stored example_store ''a'' [''abcd'', ''efgh'', ''i''] \<and>
   8 = length (concat (take 2 [''abcd'', ''efgh'', ''i''])) \<and>
   probe_len (store_getxattr example_store) ''a'' 2 = 1 \<and>
   chain_getxattr small_consts (store_getxattr example_store) ''a'' 8 =
     Some (Inr (- ERANGE, ''abcdefgh'')) \<and>
   chain_stored exact_store ''e'' [''abcd''] \<and>
   4 = length (concat (take 1 [''abcd''])) \<and>
   probe_len (store_getxattr exact_store) ''e'' 1 = - ENODATA \<and>
   chain_getxattr small_consts (store_getxattr exact_store) ''e'' 4 = Some (Inr (4, ''abcd''))"
proof -
  have h1: "int (length ''a'') \<le> CHAIN_XATTR_MAX_NAME_LEN small_consts"
    "int (length ''e'') \<le> CHAIN_XATTR_MAX_NAME_LEN small_consts"
    by (simp_all add: small_consts_def)
  have h2: "int (length [''abcd'', ''efgh'', ''i'']) < 2 ^ 31" "int (length [''abcd'']) < 2 ^ 31"
    by simp_all
  have b: "block_len small_consts (int (length ''abcd''))"
    "block_len small_consts (int (length ''efgh''))"
    by (simp_all add: block_len_def small_consts_def)
  have h4: "(0::nat) < 2" "(0::nat) < 1" by simp_all
  have h5: "2 \<le> length [''abcd'', ''efgh'', ''i'']" "1 \<le> length [''abcd'']" by simp_all
  have h6: "\<forall>j<2. block_len small_consts (int (length ([''abcd'', ''efgh'', ''i''] ! j)))"
    "\<forall>j<1. block_len small_consts (int (length ([''abcd''] ! j)))"
    using b by (simp_all add: less_Suc_eq numeral_2_eq_2)
  have h7: "0 < CHAIN_XATTR_MAX_BLOCK_LEN small_consts"
    "0 < CHAIN_XATTR_SHORT_BLOCK_LEN small_consts"
    by (simp_all add: small_consts_def)
  have h9: "8 = length (concat (take 2 [''abcd'', ''efgh'', ''i'']))"
    "4 = length (concat (take 1 [''abcd'']))" by simp_all
  have h10: "int 8 < 2 ^ 31" "int 4 < 2 ^ 31" by simp_all
  have e: "chain_stored exact_store ''e'' [''abcd'']"
    by (simp add: chain_stored_def exact_store_def physical_key_def escaped_def
        chunk_suffix_def show_int_def show_nat.simps)
  from chain_getxattr_truncated [OF h1(1) h2(1) example_chain_a h4(1) h5(1) h6(1) h7 h9(1) h10(1)]
  have r1: "probe_len (store_getxattr example_store) ''a'' 2 = 1 \<and>
    chain_getxattr small_consts (store_getxattr example_store) ''a'' 8 =
      Some (Inr (- ERANGE, ''abcdefgh''))"
    by simp
  from chain_getxattr_truncated [OF h1(2) h2(2) e h4(2) h5(2) h6(2) h7 h9(2) h10(2)]
  have r2: "probe_len (store_getxattr exact_store) ''e'' 1 = - ENODATA \<and>
    chain_getxattr small_consts (store_getxattr exact_store) ''e'' 4 = Some (Inr (4, ''abcd''))"
    by (simp add: ENODATA_def)
  from example_chain_a h9 e r1 r2 show ?thesis by blast
qed

section \<open>Listing the logical names\<close>

lemma chunk_suffix_c_string: "c_string (chunk_suffix i)"
  using show_int_chars [of _ i] by (auto simp: chunk_suffix_def c_string_def)

lemma physical_key_c_string: "c_string name \<Longrightarrow> c_string (physical_key name i)"
  using escaped_c_string [of name] chunk_suffix_c_string [of i]
  by (simp add: physical_key_def c_string_def)

lemma takeWhile_c_string:
  "c_string key \<Longrightarrow> takeWhile (\<lambda>c. c \<noteq> NUL) (key @ NUL # rest) = key"
  by (induction key) (auto simp: c_string_def)

lemma key_stream_Cons: "key_stream (k # ks) = k @ NUL # key_stream ks"
  by (simp add: key_stream_def)

lemma map_the_Some: "map the (map Some xs) = xs"
  by (induction xs) auto

lemma strcpy_name_Some: "strcpy_name (map Some name) = Inr (name @ [NUL])"
proof -
  have "None \<notin> set (map Some name)" by (induction name) auto
  then show ?thesis by (simp only: strcpy_name_def map_the_Some if_False)
qed

lemma listed_names_Cons:
  "listed_names ((n, i) # es) = (if i = 0 then n @ NUL # listed_names es else listed_names es)"
  by (simp add: listed_names_def key_stream_Cons)


lemma length_escaped_ge: "length name \<le> length (escaped name)"
  by (induction name) (auto simp: escaped_Cons)

lemma length_key_stream_Cons:
  "length (key_stream (k # ks)) = length k + 1 + length (key_stream ks)"
  by (simp add: key_stream_Cons)

lemma length_listed_names_le:
  "length (listed_names es) \<le> length (key_stream (entry_keys es))"
proof (induction es)
  case Nil
  show ?case by (simp add: listed_names_def entry_keys_def key_stream_def)
next
  case (Cons e es)
  obtain n i where e: "e = (n, i)" by (cases e)
  have keys: "entry_keys ((n, i) # es) = physical_key n (int i) # entry_keys es"
    by (simp add: entry_keys_def)
  have "length n \<le> length (physical_key n (int i))"
    using length_escaped_ge [of n] by (simp add: physical_key_def)
  then show ?case
    unfolding e keys length_key_stream_Cons listed_names_Cons
    using Cons.IH by auto
qed

lemma listxattr_loop_entries:
  assumes "\<forall>e\<in>set es. c_string (fst e) \<and> int (length (fst e)) \<le> CHAIN_XATTR_MAX_NAME_LEN K"
    and "buf = pre @ key_stream (entry_keys es)" and "int (length buf) < 2 ^ 31"
    and "dest + int (length (listed_names es)) \<le> len"
  shows "listxattr_loop buf (int (length pre)) (name_buf_len K) dest len written =
           Some (Inr (wrap_int (dest + int (length (listed_names es))),
                      written @ listed_names es))"
  using assms
proof (induction es arbitrary: pre dest written)
  case Nil
  then have "buf = pre" by (simp add: entry_keys_def key_stream_def)
  then show ?case
    by (subst listxattr_loop.simps) (simp add: listed_names_def key_stream_def)
next
  case (Cons e es)
  obtain n i where e: "e = (n, i)" by (cases e)
  define key where "key = physical_key n (int i)"
  define rest where "rest = key_stream (entry_keys es)"
  from Cons.prems(1) e have n: "c_string n" "int (length n) \<le> CHAIN_XATTR_MAX_NAME_LEN K"
    by simp_all
  from Cons.prems(1) have es: "\<forall>e\<in>set es. c_string (fst e) \<and>
      int (length (fst e)) \<le> CHAIN_XATTR_MAX_NAME_LEN K"
    by simp
  have ck: "c_string key" unfolding key_def using n(1) by (rule physical_key_c_string)
  have buf: "buf = pre @ key @ NUL # rest"
    using Cons.prems(2) by (simp add: entry_keys_def key_stream_Cons e key_def rest_def)
  then have buf': "buf = (pre @ key @ [NUL]) @ key_stream (entry_keys es)"
    by (simp add: rest_def)
  have p: "int (length pre) < int (length buf)" "\<not> int (length pre) < 0"
    by (simp_all add: buf)
  have mem: "drop (nat (int (length pre))) buf = key @ NUL # rest"
    by (simp add: buf)
  have nul: "\<not> NUL \<notin> set (key @ NUL # rest)" by simp
  have tw: "takeWhile (\<lambda>c. c \<noteq> NUL) (key @ NUL # rest) = key"
    using ck by (rule takeWhile_c_string)
  have "int (length key) + 1 \<le> int (length buf)" by (simp add: buf)
  with Cons.prems(3) have kl: "int (length key) + 1 < 2 ^ 31" by linarith
  have w1: "wrap_int (int (length key)) = int (length key)"
    using kl by (intro wrap_int_nonneg) simp_all
  have w2: "wrap_int (int (length key) + 1) = int (length key) + 1"
    using kl by (intro wrap_int_nonneg) simp_all
  have p': "int (length pre) + (int (length key) + 1) = int (length (pre @ key @ [NUL]))"
    by simp
  show ?case
  proof (cases "i = 0")
    case True
    have tr: "translate_raw_name (key @ NUL # rest) (name_buf_len K) =
        Inr (int (length n), map Some n, True)"
      unfolding key_def True using translate_chunk0_key [OF n, of rest] by simp
    have out: "listed_names (e # es) = n @ NUL # listed_names es"
      by (simp add: e True listed_names_Cons)
    from Cons.prems(4) have room: "dest + int (length n) + 1 + int (length (listed_names es)) \<le> len"
      by (simp add: out)
    then have room': "(dest + int (length n) + 1) + int (length (listed_names es)) \<le> len"
      by simp
    have IH: "listxattr_loop buf (int (length (pre @ key @ [NUL]))) (name_buf_len K)
        (dest + int (length n) + 1) len (written @ n @ [NUL]) =
        Some (Inr (wrap_int (dest + int (length n) + 1 + int (length (listed_names es))),
             (written @ n @ [NUL]) @ listed_names es))"
      using es buf' Cons.prems(3) room' by (rule Cons.IH)
    have res: "dest + int (length (listed_names (e # es))) =
        dest + int (length n) + 1 + int (length (listed_names es))"
      by (simp add: out)
    have c1: "\<not> len < dest + int (length n)" "\<not> len < dest + int (length (n @ [NUL]))"
      using room by simp_all
    show ?thesis
      unfolding res
      by (subst listxattr_loop.simps,
          simp only: p mem nul tw w1 w2 tr strcpy_name_Some c1 p' IH out Let_def if_False
            sum.case prod.case if_True not_not append_assoc append.simps, simp)
  next
    case False
    have tr: "translate_raw_name (key @ NUL # rest) (name_buf_len K) =
        Inr (int (length n), map Some n, False)"
      unfolding key_def using translate_chunk_key [OF n, of "int i" rest] False by simp
    have out: "listed_names (e # es) = listed_names es"
      by (simp add: e False listed_names_Cons)
    have IH: "listxattr_loop buf (int (length (pre @ key @ [NUL]))) (name_buf_len K)
        dest len written =
        Some (Inr (wrap_int (dest + int (length (listed_names es))), written @ listed_names es))"
      using es buf' Cons.prems(3) Cons.prems(4) [unfolded out] by (rule Cons.IH)
    show ?thesis
      unfolding out
      by (subst listxattr_loop.simps,
          simp only: p mem nul tw w1 w2 tr p' IH Let_def if_False sum.case prod.case not_not,
          simp)
  qed
qed

lemma store_listxattr_twice:
  assumes "map fst st = keys" and "B = length (key_stream keys)"
  shows "fst (store_listxattr st 0) = int B"
    and "take (nat (fst (store_listxattr st (2 * B)))) (snd (store_listxattr st (2 * B))) =
           key_stream keys"
    and "\<not> fst (store_listxattr st (2 * B)) < 0"
  using assms by (auto simp: store_listxattr_def Let_def)

text \<open>
  C9.  The object holds the keys of a list of entries, logical names (C strings within
  the maximal name length, with any number of \<open>@\<close>) with their chunk indices, and the
  primitive lists these keys.  Called with a destination of \<open>len > 0\<close> bytes that is
  large enough for the result, \<open>chain_listxattr\<close> and \<open>chain_flistxattr\<close> store exactly
  the names of the entries of chunk 0, each with its terminator and one behind the other,
  no key with a suffix \<open>@i\<close> among them, and return the number of bytes stored.  The
  keys take less than \<open>2 ^ 30\<close> bytes, so that the doubled size is in the range of an
  \<open>int\<close>.
\<close>

theorem chain_listxattr_names:
  assumes "\<forall>e\<in>set es. c_string (fst e) \<and> int (length (fst e)) \<le> CHAIN_XATTR_MAX_NAME_LEN K"
    and "map fst st = entry_keys es"
    and "int (length (key_stream (entry_keys es))) < 2 ^ 30"
    and "0 < len" and "length (listed_names es) \<le> len"
    and "malloc_ok (2 * length (key_stream (entry_keys es)))"
  shows "chain_listxattr K (store_listxattr st) malloc_ok len =
           Some (Inr (int (length (listed_names es)), listed_names es)) \<and>
         chain_flistxattr K (store_listxattr st) malloc_ok len =
           Some (Inr (int (length (listed_names es)), listed_names es))"
proof -
  define B where "B = length (key_stream (entry_keys es))"
  note two = store_listxattr_twice [OF assms(2) B_def]
  have B30: "int B < 2 ^ 30" using assms(3) by (simp add: B_def)
  have "wrap_int (int B * 2) = int B * 2"
    using B30 by (intro wrap_int_nonneg) simp_all
  moreover have "(int B * 2) mod 2 ^ 64 = int B * 2"
    using B30 by (intro mod_pos_pos_trivial) simp_all
  ultimately have tl: "nat (wrap_int (int B * 2) mod 2 ^ 64) = 2 * B" by simp
  have ok: "malloc_ok (2 * B)" using assms(6) by (simp add: B_def)
  have B31: "int (length (key_stream (entry_keys es))) < 2 ^ 31" using assms(3) by simp
  have "length (listed_names es) \<le> B"
    unfolding B_def by (rule length_listed_names_le)
  with B30 have w: "wrap_int (int (length (listed_names es))) = int (length (listed_names es))"
    by (intro wrap_int_nonneg) simp_all
  have "chain_listxattr K (store_listxattr st) malloc_ok len =
      listxattr_loop (key_stream (entry_keys es)) 0 (name_buf_len K) 0 (int len) []"
    using assms(4) two(3)
    by (simp only: chain_listxattr_def Let_def split_beta two(1,2) tl ok) simp
  also have "\<dots> = Some (Inr (int (length (listed_names es)), listed_names es))"
    using listxattr_loop_entries [OF assms(1) _ B31, of "[]" 0 "int len" "[]"] assms(5) w
    by simp
  finally show ?thesis by (simp add: chain_flistxattr_def)
qed

theorem chain_listxattr_names_witness:
  "map fst example_store = entry_keys [(''a'', 0), (''a'', 1), (''a'', 2), (''b@'', 0), (''b@'', 1)] \<and>
   listed_names [(''a'', 0), (''a'', 1), (''a'', 2), (''b@'', 0), (''b@'', 1)] =
     [CHR ''a'', NUL, CHR ''b'', CHR ''@'', NUL] \<and>
   chain_listxattr small_consts (store_listxattr example_store) (\<lambda>n. True) 5 =
     Some (Inr (5, [CHR ''a'', NUL, CHR ''b'', CHR ''@'', NUL]))"
proof -
  define es :: "(string \<times> nat) list"
    where "es = [(''a'', 0), (''a'', 1), (''a'', 2), (''b@'', 0), (''b@'', 1)]"
  have h1: "\<forall>e\<in>set es. c_string (fst e) \<and>
      int (length (fst e)) \<le> CHAIN_XATTR_MAX_NAME_LEN small_consts"
    by (simp add: es_def c_string_def small_consts_def)
  have h2: "map fst example_store = entry_keys es"
    by (simp add: es_def example_store_def entry_keys_def physical_key_def escaped_def
        chunk_suffix_def show_int_def show_nat.simps)
  have h2': "int (length (key_stream (entry_keys es))) < 2 ^ 30"
    by (simp add: h2 [symmetric] example_store_def key_stream_def)
  have out: "listed_names es = [CHR ''a'', NUL, CHR ''b'', CHR ''@'', NUL]"
    by (simp add: es_def listed_names_def key_stream_def)
  have h3: "(0::nat) < 5" by simp
  have h4: "length (listed_names es) \<le> 5" by (simp add: out)
  from chain_listxattr_names [OF h1 h2 h2' h3 h4, of "\<lambda>n. True"] h2 out
  show ?thesis unfolding es_def by (simp add: out [unfolded es_def])
qed

end
